theory Spec2Isabelle
  imports Complex_Main "HOL-Library.Multiset"
begin

chapter \<open>The scripts\<close>

section \<open>Python values and exceptions\<close>

text \<open>
  \<open>roidetect\<close> and \<open>bridgedetect\<close> raise no exception of their own: every failure
  is an exception of Python or of a library, raised inside a call. Each is a constructor here and a function that
  can raise returns \<open>error + 'a\<close>, with \<open>Inl\<close> for the exception.
\<close>

datatype error =
    NetworkXError
  | TypeError
  | ValueError
  | IndexError
  | KeyError
  | NameError string
  | SystemExit
  | CvError
  | OSError

type_synonym point = "int \<times> int"

text \<open>
  \<open>np.array(xs)\<close> on a list of arrays stacks them when they have one shape. When the
  shapes differ, numpy from 1.24 on raises \<open>ValueError\<close>; older versions return an
  array of objects with the same entries. Which of the two holds is a parameter.
\<close>

definition np_array :: "bool \<Rightarrow> ('a \<Rightarrow> nat list) \<Rightarrow> 'a list \<Rightarrow> error + 'a list" where
  "np_array ragged_raises shape xs =
     (if ragged_raises \<and> (\<exists>x \<in> set xs. \<exists>y \<in> set xs. shape x \<noteq> shape y)
      then Inl ValueError else Inr xs)"

text \<open>
  \<open>numpy.ndarray.astype(int)\<close> on a finite float: the fractional part is dropped
  (rounding toward zero). A finite float is a rational number.
\<close>

definition astype_int :: "rat \<Rightarrow> int" where
  "astype_int x = (if 0 \<le> x then \<lfloor>x\<rfloor> else \<lceil>x\<rceil>)"

definition astype_int2 :: "rat \<times> rat \<Rightarrow> point" where
  "astype_int2 p = (astype_int (fst p), astype_int (snd p))"

section \<open>roidetect.warp: registration on the markers\<close>

text \<open>
  \<open>aruco.detectMarkers\<close> returns \<open>corners\<close>, one array of shape (1, 4, 2) per marker
  (its four corners), and \<open>ids\<close>, one id per marker, or \<open>None\<close> when no marker is
  found. They are the input here; the corner coordinates are floats, taken as rationals.
\<close>

type_synonym rpoint = "rat \<times> rat"
type_synonym quad = "rpoint \<times> rpoint \<times> rpoint \<times> rpoint"

text \<open>\<open>np.average(x, axis=1)\<close> on the four corners of a marker.\<close>

definition np_average4 :: "quad \<Rightarrow> rpoint" where
  "np_average4 q =
     (case q of (a, b, c, d) \<Rightarrow>
        ((fst a + fst b + fst c + fst d) / 4, (snd a + snd b + snd c + snd d) / 4))"

text \<open>
  Lines 42 to 54, up to the call of the solver. Iterating \<open>ids\<close> raises \<open>TypeError\<close>
  when it is \<open>None\<close>. \<open>sorted\<close> compares the pairs (id, centre) as tuples: two pairs
  with the same id are compared on their centres, which are arrays, and the truth value
  of an array comparison raises \<open>ValueError\<close>; with distinct ids the pairs are ordered by
  id. There is no test on the number of markers.
\<close>

definition warp_coord2 :: "quad list \<Rightarrow> int list option \<Rightarrow> error + point list" where
  "warp_coord2 corners ids =
     (let avg = map np_average4 corners in
      case ids of
        None \<Rightarrow> Inl TypeError
      | Some flat_ids \<Rightarrow>
          let pairs = zip flat_ids avg in
          if \<not> distinct (map fst pairs) then Inl ValueError
          else Inr (map (\<lambda>x. astype_int2 (snd x)) (sort_key fst pairs)))"

text \<open>
  \<open>cv2.findHomography(coord2, coord1)\<close> raises \<open>cv2.error\<close> when the two point sets
  differ in size and when they have fewer than four points. For four points or more its
  outcome, a matrix or an error, is the parameter \<open>solve\<close>.
\<close>

definition findHomography ::
  "(point list \<Rightarrow> point list \<Rightarrow> error + 'm) \<Rightarrow> point list \<Rightarrow> point list \<Rightarrow> error + 'm" where
  "findHomography solve src dst =
     (if length src \<noteq> length dst \<or> length src < 4 then Inl CvError else solve src dst)"

text \<open>
  \<open>warp\<close>, from the detected markers on; \<open>cv2.warpPerspective(frame, M, (w, h))\<close> is
  the parameter \<open>warpPerspective\<close>.
\<close>

definition warp ::
  "(point list \<Rightarrow> point list \<Rightarrow> error + 'm) \<Rightarrow> ('m \<Rightarrow> error + 'img) \<Rightarrow>
     quad list \<Rightarrow> int list option \<Rightarrow> point list \<Rightarrow> error + 'm \<times> 'img" where
  "warp solve warpPerspective corners ids coord1 =
     (case warp_coord2 corners ids of
        Inl e \<Rightarrow> Inl e
      | Inr coord2 \<Rightarrow>
          (case findHomography solve coord2 coord1 of
             Inl e \<Rightarrow> Inl e
           | Inr M \<Rightarrow>
               (case warpPerspective M of
                  Inl e \<Rightarrow> Inl e
                | Inr result \<Rightarrow> Inr (M, result))))"

definition three_markers :: "quad list" where
  "three_markers =
     [((10, 10), (20, 10), (20, 20), (10, 20)),
      ((100, 10), (111, 10), (111, 20), (100, 20)),
      ((10, 100), (20, 100), (20, 110), (10, 110))]"

definition unit_square :: "point list" where
  "unit_square = [(0, 0), (1, 0), (1, 1), (0, 1)]"

section \<open>roidetect.nodes: junctions of the skeleton graph\<close>

text \<open>
  \<open>sknw.build_sknw\<close> returns a \<open>networkx.Graph\<close>. The function \<open>nodes\<close> reads two
  things of it: the node dictionary (node id to attributes, of which only \<open>'o'\<close>, the
  centre of the node, is used) in insertion order, and for a node the keys of its
  adjacency dictionary, which \<open>graph.neighbors\<close> iterates: \<open>gadj g i\<close> lists the
  neighbours of \<open>i\<close>, each once, and its length is their number.
\<close>

record graph =
  gnodes :: "(nat \<times> (rat \<times> rat)) list"
  gadj :: "nat \<Rightarrow> nat list"

definition has_node :: "graph \<Rightarrow> nat \<Rightarrow> bool" where
  "has_node g i = (i \<in> fst ` set (gnodes g))"

text \<open>\<open>graph.neighbors(i)\<close> raises \<open>NetworkXError\<close> when \<open>i\<close> is not a node.\<close>

definition neighbors :: "graph \<Rightarrow> nat \<Rightarrow> error + nat list" where
  "neighbors g i = (if has_node g i then Inr (gadj g i) else Inl NetworkXError)"

text \<open>\<open>copy.remove_node(i)\<close> deletes the node and its edges, and raises when it is absent.\<close>

definition remove_node :: "graph \<Rightarrow> nat \<Rightarrow> error + graph" where
  "remove_node g i =
     (if has_node g i
      then Inr \<lparr>gnodes = filter (\<lambda>(j, c). j \<noteq> i) (gnodes g),
                gadj = (\<lambda>j. if j = i then [] else removeAll i (gadj g j))\<rparr>
      else Inl NetworkXError)"

text \<open>
  The loop \<open>for i in range(len(node_centers))\<close>: the neighbours are counted in
  \<open>graph\<close>, the node is removed from \<open>copy\<close>.
\<close>

fun nodes_loop :: "graph \<Rightarrow> nat list \<Rightarrow> graph \<Rightarrow> error + graph" where
  "nodes_loop graph [] copy = Inr copy"
| "nodes_loop graph (i # is) copy =
     (case neighbors graph i of
        Inl e \<Rightarrow> Inl e
      | Inr conn \<Rightarrow>
          if length conn < 3
          then (case remove_node copy i of
                  Inl e \<Rightarrow> Inl e
                | Inr copy' \<Rightarrow> nodes_loop graph is copy')
          else nodes_loop graph is copy)"

text \<open>
  \<open>nodes\<close> from the graph on: \<open>node_centers\<close> has one row per node, the loop runs over
  \<open>range(len(node_centers))\<close>, and the centres of the nodes left in \<open>copy\<close> are
  returned as integers.
\<close>

definition nodes :: "graph \<Rightarrow> error + point list" where
  "nodes graph =
     (let node_centers = map snd (gnodes graph) in
      case nodes_loop graph [0..<length node_centers] graph of
        Inl e \<Rightarrow> Inl e
      | Inr copy \<Rightarrow> Inr (map (\<lambda>(i, c). astype_int2 c) (gnodes copy)))"

definition empty_graph :: graph where
  "empty_graph = \<lparr>gnodes = [], gadj = (\<lambda>j. [])\<rparr>"

text \<open>A star: node 0 joined to the nodes 1, 2 and 3.\<close>

definition star_graph :: graph where
  "star_graph =
     \<lparr>gnodes = [(0, (10, 10)), (1, (0, 10)), (2, (10, 21/2)), (3, (20, 0))],
      gadj = (\<lambda>j. if j = 0 then [1, 2, 3] else if j \<le> 3 then [0] else [])\<rparr>"

section \<open>roidetect.centers: matching detected points to the reference\<close>

text \<open>
  \<open>roidetect.main\<close> calls \<open>centers\<close> on two numpy arrays of 64-bit integers
  (\<open>reference\<close> from \<open>np.loadtxt(...).astype(int)\<close>, \<open>ps\<close> from \<open>nodes\<close>), with one
  point per row. This is the input modelled here. Arithmetic on their entries wraps
  around at 64 bits.
\<close>

definition wrap64 :: "int \<Rightarrow> int" where
  "wrap64 x = (x + 2 ^ 63) mod 2 ^ 64 - 2 ^ 63"

text \<open>
  The distance of the source, \<open>np.sqrt(np.abs(dx**2 + dy**2))\<close>: every operation before
  the square root is on 64-bit integers (\<open>np.abs\<close> of the least integer is that integer
  again), and the square root of a negative number is \<open>nan\<close>, here \<open>None\<close>. The real
  square root stands for numpy's rounded one: the rounded root is below 10000 exactly
  when the integer is below \<open>10 ^ 8\<close>, and below that the rounded roots of two integers
  compare as the integers do, so the loop takes the same branches.
\<close>

definition np_dist :: "point \<Rightarrow> point \<Rightarrow> real option" where
  "np_dist r p =
     (let dx = wrap64 (fst r - fst p); dy = wrap64 (snd r - snd p);
          s = wrap64 (wrap64 (dx\<^sup>2) + wrap64 (dy\<^sup>2));
          a = wrap64 \<bar>s\<bar>
      in if a < 0 then None else Some (sqrt (real_of_int a)))"

text \<open>
  The inner loop over \<open>j\<close>, with the variables \<open>min_dist\<close> and \<open>index\<close>; \<open>d\<close> is
  the source's \<open>dist\<close>. A comparison with \<open>nan\<close> is false.
\<close>

fun nearest :: "point \<Rightarrow> point list \<Rightarrow> nat \<Rightarrow> real \<Rightarrow> nat option \<Rightarrow> nat option" where
  "nearest r [] j min_dist index = index"
| "nearest r (p # ps) j min_dist index =
     (case np_dist r p of
        None \<Rightarrow> nearest r ps (Suc j) min_dist index
      | Some d \<Rightarrow>
          if d < min_dist then nearest r ps (Suc j) d (Some j)
          else nearest r ps (Suc j) min_dist index)"

text \<open>
  \<open>ps[index]\<close>: a row of the array, and for \<open>index = None\<close> the whole array under a
  new first axis (\<open>None\<close> is \<open>np.newaxis\<close>), which is no exception.
\<close>

datatype item = Row point | NewAxis "point list"

definition getitem :: "point list \<Rightarrow> nat option \<Rightarrow> error + item" where
  "getitem ps index =
     (case index of
        Some j \<Rightarrow> if j < length ps then Inr (Row (ps ! j)) else Inl IndexError
      | None \<Rightarrow> Inr (NewAxis ps))"

fun item_shape :: "item \<Rightarrow> nat list" where
  "item_shape (Row p) = [2]"
| "item_shape (NewAxis ps) = (if ps = [] then [1, 0] else [1, length ps, 2])"

text \<open>The loop over the reference points; \<open>newpoints\<close> is built in their order.\<close>

fun centers_loop :: "point list \<Rightarrow> point list \<Rightarrow> error + item list" where
  "centers_loop ps [] = Inr []"
| "centers_loop ps (r # reference) =
     (case getitem ps (nearest r ps 0 10000 None) of
        Inl e \<Rightarrow> Inl e
      | Inr it \<Rightarrow>
          (case centers_loop ps reference of
             Inl e \<Rightarrow> Inl e
           | Inr newpoints \<Rightarrow> Inr (it # newpoints)))"

definition centers :: "bool \<Rightarrow> point list \<Rightarrow> point list \<Rightarrow> error + item list" where
  "centers ragged_raises reference ps =
     (case centers_loop ps reference of
        Inl e \<Rightarrow> Inl e
      | Inr newpoints \<Rightarrow> np_array ragged_raises item_shape newpoints)"

text \<open>
  The Euclidean distance of two points, and its square; \<open>in_range\<close> bounds the
  coordinates so that the 64-bit arithmetic of \<open>np_dist\<close> does not wrap.
\<close>

definition dist2 :: "point \<Rightarrow> point \<Rightarrow> int" where
  "dist2 r p = (fst r - fst p)\<^sup>2 + (snd r - snd p)\<^sup>2"

definition euclid :: "point \<Rightarrow> point \<Rightarrow> real" where
  "euclid r p = sqrt (real_of_int (dist2 r p))"

definition in_range :: "point \<Rightarrow> bool" where
  "in_range p = (\<bar>fst p\<bar> < 2 ^ 30 \<and> \<bar>snd p\<bar> < 2 ^ 30)"

text \<open>
  The same search on squared distances, which the simplifier can evaluate;
  \<open>nearest_sq_eq\<close> below relates the two.
\<close>

fun nearest_sq :: "point \<Rightarrow> point list \<Rightarrow> nat \<Rightarrow> int \<Rightarrow> nat option \<Rightarrow> nat option" where
  "nearest_sq r [] j m index = index"
| "nearest_sq r (p # ps) j m index =
     (if dist2 r p < m then nearest_sq r ps (Suc j) (dist2 r p) (Some j)
      else nearest_sq r ps (Suc j) m index)"

text \<open>The entry of \<open>newpoints\<close> for a reference point.\<close>

definition entry :: "point list \<Rightarrow> point \<Rightarrow> item" where
  "entry ps r = (case nearest r ps 0 10000 None of None \<Rightarrow> NewAxis ps | Some j \<Rightarrow> Row (ps ! j))"

section \<open>roidetect.vertices: ordering the vertices of a junction\<close>

text \<open>
  \<open>np.roll(xs, shift, axis=0)\<close>: the row at position \<open>k\<close> moves to position
  \<open>(k + shift) mod len(xs)\<close>.
\<close>

definition np_roll :: "int \<Rightarrow> 'a list \<Rightarrow> 'a list" where
  "np_roll shift xs =
     (if xs = [] then [] else rotate (nat ((- shift) mod int (length xs))) xs)"

text \<open>
  \<open>np.argmax\<close>: the index of the first occurrence of the maximum; \<open>ValueError\<close> on an
  empty sequence.
\<close>

fun first_index :: "'a \<Rightarrow> 'a list \<Rightarrow> nat" where
  "first_index x [] = 0"
| "first_index x (y # ys) = (if x = y then 0 else Suc (first_index x ys))"

definition np_argmax :: "('a::linorder) list \<Rightarrow> error + nat" where
  "np_argmax xs = (if xs = [] then Inl ValueError else Inr (first_index (Max (set xs)) xs))"

text \<open>
  \<open>np.diff(poly, axis=0, append=poly[0:1])\<close>: the differences of consecutive rows of
  \<open>poly\<close> followed by its first row.
\<close>

definition np_diff_append_first :: "point list \<Rightarrow> point list" where
  "np_diff_append_first poly =
     (let a = poly @ take 1 poly
      in map (\<lambda>(p, q). (fst q - fst p, snd q - snd p)) (zip a (tl a)))"

definition segdists :: "point list \<Rightarrow> real list" where
  "segdists poly =
     map (\<lambda>d. sqrt (real_of_int ((fst d)\<^sup>2 + (snd d)\<^sup>2))) (np_diff_append_first poly)"

text \<open>
  Lines 170 to 173: the polygon is rolled so that the start of its longest edge comes
  first.
\<close>

definition longest_edge_first :: "point list \<Rightarrow> error + point list" where
  "longest_edge_first poly =
     (case np_argmax (segdists poly) of
        Inl e \<Rightarrow> Inl e
      | Inr index \<Rightarrow> Inr (np_roll (- int index) poly))"

text \<open>The labels of the right junctions, as the literal set of line 176.\<close>

definition right_junctions :: "int set" where
  "right_junctions = {5, 3, 0, 2, 6, 50, 32, 20, 212, 211, 60, 41, 42, 121, 122, 111, 112}"

text \<open>
  Lines 169 to 178 for junction \<open>i\<close> and the polygon \<open>poly\<close> that
  \<open>cv2.convexHull\<close> returned; \<open>Dict[i]\<close> raises \<open>KeyError\<close> on a missing key.
\<close>

definition reorder :: "(nat \<rightharpoonup> int) \<Rightarrow> nat \<Rightarrow> point list \<Rightarrow> error + point list" where
  "reorder Dict i poly =
     (case longest_edge_first poly of
        Inl e \<Rightarrow> Inl e
      | Inr roll \<Rightarrow>
          (case Dict i of
             None \<Rightarrow> Inl KeyError
           | Some label \<Rightarrow> Inr (if label \<in> right_junctions then np_roll 2 roll else roll)))"

text \<open>
  The loop of \<open>vertices\<close> over \<open>range(len(newpoints))\<close>. Lines 156 to 167 (the circle
  drawn around junction \<open>i\<close>, its intersection with the contour, \<open>KMeans\<close> and
  \<open>cv2.convexHull\<close>) are calls into OpenCV and scikit-learn: \<open>hull_at i\<close> stands for
  their result at junction \<open>i\<close>.
\<close>

fun vertices_loop ::
  "(nat \<Rightarrow> error + point list) \<Rightarrow> (nat \<rightharpoonup> int) \<Rightarrow> nat list \<Rightarrow> error + point list list" where
  "vertices_loop hull_at Dict [] = Inr []"
| "vertices_loop hull_at Dict (i # is) =
     (case hull_at i of
        Inl e \<Rightarrow> Inl e
      | Inr poly \<Rightarrow>
          (case reorder Dict i poly of
             Inl e \<Rightarrow> Inl e
           | Inr roll \<Rightarrow>
               (case vertices_loop hull_at Dict is of
                  Inl e \<Rightarrow> Inl e
                | Inr conn \<Rightarrow> Inr (roll # conn))))"

definition vertices ::
  "bool \<Rightarrow> (nat \<Rightarrow> error + point list) \<Rightarrow> nat \<Rightarrow> (nat \<rightharpoonup> int) \<Rightarrow> error + point list list" where
  "vertices ragged_raises hull_at len_newpoints Dict =
     (case vertices_loop hull_at Dict [0..<len_newpoints] of
        Inl e \<Rightarrow> Inl e
      | Inr conn \<Rightarrow> np_array ragged_raises (\<lambda>poly. [length poly, 2]) conn)"

text \<open>The label table of \<open>roidetect.main\<close> (line 214).\<close>

definition main_Dict :: "nat \<rightharpoonup> int" where
  "main_Dict = map_of
     [(0, 42), (1, 122), (2, 121), (3, 41), (4, 12), (5, 40), (6, 112), (7, 8), (8, 11),
      (9, 6), (10, 10), (11, 4), (12, 111), (13, 2), (14, 60), (15, 0), (16, 1), (17, 3),
      (18, 20), (19, 7), (20, 5), (21, 211), (22, 31), (23, 21), (24, 22), (25, 30),
      (26, 50), (27, 212), (28, 222), (29, 221), (30, 32)]"

definition hexagon :: "point list" where
  "hexagon = [(0, 0), (4, 0), (6, 3), (4, 6), (0, 6), (-3, 3)]"

text \<open>The squared edge lengths, for evaluation; \<open>np_argmax_segdists\<close> relates the two.\<close>

definition segdists_sq :: "point list \<Rightarrow> int list" where
  "segdists_sq poly = map (\<lambda>d. (fst d)\<^sup>2 + (snd d)\<^sup>2) (np_diff_append_first poly)"

section \<open>bridgedetect: the legacy detector\<close>

text \<open>The files: a map from a path to the text of the file.\<close>

type_synonym fs = "string \<rightharpoonup> string"

definition tab :: char where "tab = CHR 0x09"
definition newline :: char where "newline = CHR 0x0A"

text \<open>\<open>'%d' % n\<close> for an integer \<open>n\<close>: its decimal digits, after a minus sign when negative.\<close>

definition digit_char :: "nat \<Rightarrow> char" where
  "digit_char d = ''0123456789'' ! d"

fun str_nat :: "nat \<Rightarrow> string" where
  "str_nat n = (if n < 10 then [digit_char n] else str_nat (n div 10) @ [digit_char (n mod 10)])"

declare str_nat.simps [simp del]

definition format_d :: "int \<Rightarrow> string" where
  "format_d n = (if n < 0 then CHR ''-'' # str_nat (nat (- n)) else str_nat (nat n))"

text \<open>
  \<open>'%d,%d,%d,%d' % tuple(x)\<close>: a \<open>TypeError\<close> unless \<open>x\<close> has exactly four entries.
\<close>

definition format_roi :: "int list \<Rightarrow> error + string" where
  "format_roi x =
     (case x of
        [a, b, c, d] \<Rightarrow>
          Inr (format_d a @ '','' @ format_d b @ '','' @ format_d c @ '','' @ format_d d)
      | _ \<Rightarrow> Inl TypeError)"

fun map_format_roi :: "int list list \<Rightarrow> error + string list" where
  "map_format_roi [] = Inr []"
| "map_format_roi (x # rois) =
     (case format_roi x of
        Inl e \<Rightarrow> Inl e
      | Inr s \<Rightarrow> (case map_format_roi rois of Inl e \<Rightarrow> Inl e | Inr ss \<Rightarrow> Inr (s # ss)))"

text \<open>\<open>sep.join(strings)\<close>.\<close>

fun join :: "string \<Rightarrow> string list \<Rightarrow> string" where
  "join sep [] = []"
| "join sep [s] = s"
| "join sep (s # t # ss) = s @ sep @ join sep (t # ss)"

text \<open>
  \<open>save_rois\<close>: the file is opened for appending when it exists and \<open>append\<close> is set,
  and opened for writing (created or emptied) otherwise; then the line is formatted and
  written. \<open>open\<close> raises when the path cannot be opened for writing (an empty path, a
  missing directory, a directory: \<open>OSError\<close>; a path with a NUL character:
  \<open>ValueError\<close>): \<open>open_error outfile\<close> is that exception, if any, and nothing is written
  then. \<open>os.path.abspath\<close> depends on the working directory and is a parameter.
\<close>

definition save_rois ::
  "(string \<Rightarrow> string) \<Rightarrow> (string \<Rightarrow> error option) \<Rightarrow> int list list \<Rightarrow> string \<Rightarrow> string \<Rightarrow>
     bool \<Rightarrow> fs \<Rightarrow> error option \<times> fs" where
  "save_rois abspath open_error rois outfile imagename append_mode fs =
     (case open_error outfile of
        Some e \<Rightarrow> (Some e, fs)
      | None \<Rightarrow>
          (let f = (if outfile \<in> dom fs \<and> append_mode then fs else fs(outfile \<mapsto> []))
           in case map_format_roi rois of
                Inl e \<Rightarrow> (Some e, f)
              | Inr quads \<Rightarrow>
                  (None, f(outfile \<mapsto> the (f outfile) @
                            abspath imagename @ [tab] @ join [tab] quads @ [newline]))))"

text \<open>
  \<open>convert_polygon_to_roi\<close>: the bounding box of the points of \<open>poly\<close>. Unpacking
  the transposed sequence raises \<open>ValueError\<close> when \<open>poly\<close> has no point.
\<close>

definition convert_polygon_to_roi :: "point list \<Rightarrow> error + int list" where
  "convert_polygon_to_roi poly =
     (if poly = [] then Inl ValueError
      else let x_left = Min (set (map fst poly)); y_top = Min (set (map snd poly));
               x_right = Max (set (map fst poly)); y_bottom = Max (set (map snd poly))
           in Inr [x_right - x_left, y_bottom - y_top, x_left, y_top])"

text \<open>The text of a region in the line: its four entries in their order.\<close>

definition quad_text :: "int list \<Rightarrow> string" where
  "quad_text roi = format_d (roi ! 0) @ '','' @ format_d (roi ! 1) @ '','' @
                   format_d (roi ! 2) @ '','' @ format_d (roi ! 3)"

text \<open>The number that a string of decimal digits denotes.\<close>

definition decimal_value :: "string \<Rightarrow> nat" where
  "decimal_value ds = foldl (\<lambda>a c. 10 * a + (of_char c - 48)) 0 ds"

definition two_rois :: "int list list" where
  "two_rois = [[3, 4, 1, 2], [10, 20, -5, 0]]"

text \<open>
  \<open>bridgedetect.main\<close>, from the parsed arguments on. The names bound at the top level
  of the module are its imports and its six functions. A global name is looked up among
  them and then among Python's builtins, of which the module uses the ones listed; no
  builtin is called \<open>find_rects\<close>, \<open>pair_rects\<close> or \<open>get_roi_from_rect_pair\<close>.
\<close>

record bd_args =
  args_video :: string
  args_outfile :: string
  args_override :: bool
  args_frame :: int

definition module_globals :: "string list" where
  "module_globals =
     [''cv2'', ''np'', ''os'', ''itertools'', ''argparse'', ''constants'', ''find_red'',
      ''smooth_regions'', ''find_polygons'', ''convert_polygon_to_roi'', ''save_rois'',
      ''main'']"

definition builtins_used :: "string list" where
  "builtins_used = [''map'', ''min'', ''max'', ''zip'', ''open'', ''tuple'', ''range'', ''list'']"

definition load_global :: "string \<Rightarrow> error + unit" where
  "load_global name =
     (if name \<in> set module_globals \<or> name \<in> set builtins_used then Inr ()
      else Inl (NameError name))"

fun load_globals :: "string list \<Rightarrow> error + unit" where
  "load_globals [] = Inr ()"
| "load_globals (name # names) =
     (case load_global name of Inl e \<Rightarrow> Inl e | Inr u \<Rightarrow> load_globals names)"

text \<open>
  \<open>reads k\<close> tells whether the \<open>k\<close>-th call of \<open>video.read()\<close> gives a frame,
  \<open>mask_result\<close> is the outcome of \<open>smooth_regions(find_red(frame))\<close>, and \<open>rois\<close> is
  the value line 105 would have if its names were bound. \<open>arg_parser.error\<close> exits the
  program. The expression of line 105 loads its names from left to right.
\<close>

definition bd_main ::
  "(string \<Rightarrow> string) \<Rightarrow> (string \<Rightarrow> error option) \<Rightarrow> bd_args \<Rightarrow> (nat \<Rightarrow> bool) \<Rightarrow>
     error + unit \<Rightarrow> int list list \<Rightarrow> fs \<Rightarrow> error option \<times> fs" where
  "bd_main abspath open_error args reads mask_result rois fs =
     (let n = nat (args_frame args - 1) in
      if \<not> list_all reads [0..<n] then (Some SystemExit, fs)
      else if \<not> reads n then (Some SystemExit, fs)
      else (case mask_result of
              Inl e \<Rightarrow> (Some e, fs)
            | Inr u \<Rightarrow>
                (case load_globals [''list'', ''map'', ''get_roi_from_rect_pair'',
                                    ''pair_rects'', ''find_rects''] of
                   Inl e \<Rightarrow> (Some e, fs)
                 | Inr u \<Rightarrow>
                     save_rois abspath open_error rois (args_outfile args) (args_video args)
                       (args_override args) fs)))"

chapter \<open>Properties\<close>

section \<open>roidetect.warp\<close>

lemma insort_key_map_snd:
  "insort_key fst (i, g q) (map (\<lambda>(i, q). (i, g q)) xs) =
     map (\<lambda>(i, q). (i, g q)) (insort_key fst (i, q) xs)"
  by (induction xs) auto

lemma sort_key_map_snd:
  "sort_key fst (map (\<lambda>(i, q). (i, g q)) xs) = map (\<lambda>(i, q). (i, g q)) (sort_key fst xs)"
  by (induction xs) (auto simp: insort_key_map_snd)

lemma warp_coord2_sorted:
  assumes "distinct ids" and "length corners = length ids"
  shows "\<exists>ms. mset ms = mset (zip ids corners) \<and> sorted (map fst ms) \<and>
           warp_coord2 corners (Some ids) =
             Inr (map (\<lambda>(i, a, b, c, d).
                        (astype_int ((fst a + fst b + fst c + fst d) / 4),
                         astype_int ((snd a + snd b + snd c + snd d) / 4))) ms)"
proof -
  let ?ms = "sort_key fst (zip ids corners)"
  let ?pairs = "zip ids (map np_average4 corners)"
  have z: "?pairs = map (\<lambda>(i, q). (i, np_average4 q)) (zip ids corners)"
    by (simp add: zip_map2 case_prod_unfold)
  have f: "map fst ?pairs = ids" using assms(2) by simp
  have k: "sort_key fst ?pairs = map (\<lambda>(i, q). (i, np_average4 q)) ?ms"
    unfolding z by (rule sort_key_map_snd)
  have c: "warp_coord2 corners (Some ids) =
      Inr (map (\<lambda>x. astype_int2 (snd x)) (map (\<lambda>(i, q). (i, np_average4 q)) ?ms))"
    using assms(1) f k by (simp add: warp_coord2_def)
  have "map (\<lambda>x. astype_int2 (snd x)) (map (\<lambda>(i, q). (i, np_average4 q)) ?ms) =
      map (\<lambda>(i, a, b, c, d).
             (astype_int ((fst a + fst b + fst c + fst d) / 4),
              astype_int ((snd a + snd b + snd c + snd d) / 4))) ?ms"
    by (simp add: case_prod_unfold astype_int2_def np_average4_def)
  with c show ?thesis
    by (intro exI [of _ ?ms]) simp
qed

lemma warp_coord2_length:
  "warp_coord2 corners (Some ids) = Inr coord2 \<Longrightarrow> length coord2 \<le> length ids"
  by (auto simp: warp_coord2_def Let_def split: if_splits)

text \<open>
  C3, as the code has it. With fewer than four markers \<open>warp\<close> raises and returns no
  homography, but it has no test on the number of markers and the exception is not a
  \<open>RegistrationError\<close>, which the scripts do not define. When no marker is detected,
  iterating \<open>ids = None\<close> raises \<open>TypeError\<close>. Otherwise the markers of distinct ids
  are sorted by id, each is reduced to the mean of its four corners with the fractional
  part dropped, and these points go to \<open>cv2.findHomography\<close>, which raises \<open>cv2.error\<close>
  for fewer than four points.
\<close>

theorem warp_fewer_than_4_markers:
  "warp solve warpPerspective corners None coord1 = Inl TypeError \<and>
   (length ids < 4 \<longrightarrow> (\<exists>e. warp solve warpPerspective corners (Some ids) coord1 = Inl e)) \<and>
   (distinct ids \<and> length corners = length ids \<longrightarrow>
      (\<exists>ms. mset ms = mset (zip ids corners) \<and> sorted (map fst ms) \<and>
         warp_coord2 corners (Some ids) =
           Inr (map (\<lambda>(i, a, b, c, d).
                      (astype_int ((fst a + fst b + fst c + fst d) / 4),
                       astype_int ((snd a + snd b + snd c + snd d) / 4))) ms) \<and>
         (length ids < 4 \<longrightarrow>
            warp solve warpPerspective corners (Some ids) coord1 = Inl CvError)))"
proof (intro conjI impI)
  show "warp solve warpPerspective corners None coord1 = Inl TypeError"
    by (simp add: warp_def warp_coord2_def)
next
  assume l: "length ids < 4"
  show "\<exists>e. warp solve warpPerspective corners (Some ids) coord1 = Inl e"
  proof (cases "warp_coord2 corners (Some ids)")
    case (Inl e)
    then show ?thesis by (simp add: warp_def)
  next
    case (Inr coord2)
    with warp_coord2_length [OF Inr] l show ?thesis
      by (simp add: warp_def findHomography_def)
  qed
next
  assume a: "distinct ids \<and> length corners = length ids"
  with warp_coord2_sorted [of ids corners] obtain ms where ms:
    "mset ms = mset (zip ids corners)" "sorted (map fst ms)"
    "warp_coord2 corners (Some ids) =
       Inr (map (\<lambda>(i, a, b, c, d).
                  (astype_int ((fst a + fst b + fst c + fst d) / 4),
                   astype_int ((snd a + snd b + snd c + snd d) / 4))) ms)"
    by blast
  have "warp solve warpPerspective corners (Some ids) coord1 = Inl CvError"
    if "length ids < 4"
    using warp_coord2_length [OF ms(3)] that by (simp add: warp_def ms(3) findHomography_def)
  with ms show "\<exists>ms. mset ms = mset (zip ids corners) \<and> sorted (map fst ms) \<and>
         warp_coord2 corners (Some ids) =
           Inr (map (\<lambda>(i, a, b, c, d).
                      (astype_int ((fst a + fst b + fst c + fst d) / 4),
                       astype_int ((snd a + snd b + snd c + snd d) / 4))) ms) \<and>
         (length ids < 4 \<longrightarrow>
            warp solve warpPerspective corners (Some ids) coord1 = Inl CvError)"
    by blast
qed

theorem warp_fewer_than_4_markers_witness:
  "distinct [7, 2, 5 :: int] \<and> length three_markers = length [7, 2, 5 :: int] \<and>
   length [7, 2, 5 :: int] < 4 \<and>
   warp_coord2 three_markers (Some [7, 2, 5]) = Inr [(105, 15), (15, 105), (15, 15)] \<and>
   warp (\<lambda>src dst. Inr ()) (\<lambda>M. Inr ()) three_markers (Some [7, 2, 5]) unit_square =
     Inl CvError"
proof -
  have d: "distinct [7, 2, 5 :: int] \<and> length three_markers = length [7, 2, 5 :: int]"
    by (simp add: three_markers_def)
  have l: "length [7, 2, 5 :: int] < 4" by simp
  have c: "warp_coord2 three_markers (Some [7, 2, 5]) = Inr [(105, 15), (15, 105), (15, 15)]"
    by code_simp
  from warp_fewer_than_4_markers [of "\<lambda>src dst. Inr ()" "\<lambda>M. Inr ()" three_markers
      unit_square "[7, 2, 5]"] d l
  have "warp (\<lambda>src dst. Inr ()) (\<lambda>M. Inr ()) three_markers (Some [7, 2, 5]) unit_square =
     Inl CvError"
    by blast
  with d l c show ?thesis by simp
qed

text \<open>
  The claim C3 as stated fails on three markers: the code goes on to the homography
  step with three points, and the exception is the \<open>cv2.error\<close> of the solver.
\<close>

theorem warp_three_markers_counterexample:
  "warp_coord2 three_markers (Some [7, 2, 5]) = Inr [(105, 15), (15, 105), (15, 15)] \<and>
   warp (\<lambda>src dst. Inr ()) (\<lambda>M. Inr ()) three_markers (Some [7, 2, 5]) unit_square =
     Inl CvError"
  by code_simp

section \<open>roidetect.nodes\<close>

lemma nodes_loop_result:
  "nodes_loop g is c = Inr c' \<Longrightarrow>
     (\<forall>i \<in> set is. has_node g i) \<and>
     gnodes c' = filter (\<lambda>(j, o'). \<not> (j \<in> set is \<and> length (gadj g j) < 3)) (gnodes c)"
proof (induction "is" arbitrary: c)
  case Nil
  then show ?case by simp
next
  case (Cons i "is")
  from Cons.prems have hi: "has_node g i"
    by (auto simp: neighbors_def split: if_splits)
  show ?case
  proof (cases "length (gadj g i) < 3")
    case True
    with Cons.prems hi obtain c1 where r: "remove_node c i = Inr c1"
      and l: "nodes_loop g is c1 = Inr c'"
      by (auto simp: neighbors_def split: sum.splits)
    from r have c1: "gnodes c1 = filter (\<lambda>(j, o'). j \<noteq> i) (gnodes c)"
      by (auto simp: remove_node_def split: if_splits)
    from Cons.IH [OF l] c1 hi True show ?thesis
      by (auto intro!: filter_cong)
  next
    case False
    with Cons.prems hi have l: "nodes_loop g is c = Inr c'"
      by (auto simp: neighbors_def)
    from Cons.IH [OF l] hi False show ?thesis
      by (auto intro!: filter_cong)
  qed
qed

lemma ids_are_range:
  assumes d: "distinct (map fst (gnodes g))"
    and a: "\<forall>i \<in> set [0..<length (gnodes g)]. has_node g i"
  shows "fst ` set (gnodes g) = {0..<length (gnodes g)}"
proof -
  let ?ids = "set (map fst (gnodes g))"
  have sub: "{0..<length (gnodes g)} \<subseteq> ?ids"
    using a by (auto simp: has_node_def)
  have "card ?ids = length (gnodes g)"
    using d distinct_card [of "map fst (gnodes g)"] by simp
  then have "card ?ids = card {0..<length (gnodes g)}" by simp
  with sub have "{0..<length (gnodes g)} = ?ids"
    by (intro card_subset_eq) auto
  then show ?thesis by simp
qed

lemma nodes_result:
  assumes "distinct (map fst (gnodes g))"
    and "nodes g = Inr cs"
  shows "cs = map (\<lambda>(i, c). astype_int2 c)
                (filter (\<lambda>(i, c). 3 \<le> length (gadj g i)) (gnodes g))"
proof -
  from assms(2) obtain c' where l: "nodes_loop g [0..<length (gnodes g)] g = Inr c'"
    and cs: "cs = map (\<lambda>(i, c). astype_int2 c) (gnodes c')"
    by (auto simp: nodes_def split: sum.splits)
  from nodes_loop_result [OF l]
  have a: "\<forall>i \<in> set [0..<length (gnodes g)]. has_node g i"
    and f: "gnodes c' = filter (\<lambda>(j, o'). \<not> (j \<in> set [0..<length (gnodes g)] \<and>
                length (gadj g j) < 3)) (gnodes g)"
    by auto
  have r: "fst ` set (gnodes g) = {0..<length (gnodes g)}"
    using ids_are_range [OF assms(1) a] .
  have "gnodes c' = filter (\<lambda>(i, c). 3 \<le> length (gadj g i)) (gnodes g)"
    unfolding f
  proof (rule filter_cong [OF refl])
    fix x assume x: "x \<in> set (gnodes g)"
    then have "fst x \<in> {0..<length (gnodes g)}" using r by auto
    then show "(case x of (j, o') \<Rightarrow> \<not> (j \<in> set [0..<length (gnodes g)] \<and>
                  length (gadj g j) < 3)) =
               (case x of (i, c) \<Rightarrow> 3 \<le> length (gadj g i))"
      by (cases x) auto
  qed
  with cs show ?thesis by simp
qed

lemma nodes_loop_returns:
  "\<forall>i \<in> set is. has_node g i \<and> has_node c i \<Longrightarrow> distinct is \<Longrightarrow>
     \<exists>c'. nodes_loop g is c = Inr c'"
proof (induction "is" arbitrary: c)
  case Nil
  then show ?case by simp
next
  case (Cons i "is")
  have keep: "\<forall>j \<in> set is. has_node g j \<and>
      has_node \<lparr>gnodes = filter (\<lambda>(j, c). j \<noteq> i) (gnodes c),
                gadj = (\<lambda>j. if j = i then [] else removeAll i (gadj c j))\<rparr> j"
    using Cons.prems by (force simp: has_node_def)
  from Cons.prems have "distinct is" by simp
  from Cons.IH [OF keep this] Cons.IH [of c] Cons.prems show ?case
    by (auto simp: neighbors_def remove_node_def)
qed

lemma nodes_returns:
  assumes "map fst (gnodes g) = [0..<length (gnodes g)]"
  shows "\<exists>cs. nodes g = Inr cs"
proof -
  have "fst ` set (gnodes g) = set [0..<length (gnodes g)]"
    using assms by (metis set_map)
  then have "\<forall>i \<in> set [0..<length (gnodes g)]. has_node g i \<and> has_node g i"
    by (simp add: has_node_def)
  from nodes_loop_returns [OF this] obtain c'
    where "nodes_loop g [0..<length (gnodes g)] g = Inr c'" by auto
  then show ?thesis by (simp add: nodes_def)
qed

text \<open>
  C6. Every coordinate that \<open>nodes\<close> returns is the centre of a node with at least three
  neighbours in the skeleton graph, and the centre of every such node is returned: the
  output is the node list filtered by "three neighbours or more". The node ids are the
  keys of a dictionary, hence distinct. With the node ids that sknw gives (0, 1, ... in
  insertion order), \<open>nodes\<close> does return.
\<close>

theorem nodes_keeps_degree_ge_3:
  "(distinct (map fst (gnodes g)) \<and> nodes g = Inr cs \<longrightarrow>
      cs = map (\<lambda>(i, c). astype_int2 c)
             (filter (\<lambda>(i, c). 3 \<le> length (gadj g i)) (gnodes g))) \<and>
   (map fst (gnodes g) = [0..<length (gnodes g)] \<longrightarrow>
      nodes g = Inr (map (\<lambda>(i, c). astype_int2 c)
                      (filter (\<lambda>(i, c). 3 \<le> length (gadj g i)) (gnodes g))))"
proof (intro conjI impI)
  assume "distinct (map fst (gnodes g)) \<and> nodes g = Inr cs"
  then show "cs = map (\<lambda>(i, c). astype_int2 c)
                    (filter (\<lambda>(i, c). 3 \<le> length (gadj g i)) (gnodes g))"
    using nodes_result by blast
next
  assume ids: "map fst (gnodes g) = [0..<length (gnodes g)]"
  then have d: "distinct (map fst (gnodes g))" by (metis distinct_upt)
  from nodes_returns [OF ids] obtain cs' where r: "nodes g = Inr cs'" by blast
  from nodes_result [OF d r] r
  show "nodes g = Inr (map (\<lambda>(i, c). astype_int2 c)
                         (filter (\<lambda>(i, c). 3 \<le> length (gadj g i)) (gnodes g)))"
    by simp
qed

theorem nodes_keeps_degree_ge_3_witness:
  "map fst (gnodes star_graph) = [0..<length (gnodes star_graph)] \<and>
   nodes star_graph = Inr [(10, 10)] \<and>
   [(10, 10)] = map (\<lambda>(i, c). astype_int2 c)
                  (filter (\<lambda>(i, c). 3 \<le> length (gadj star_graph i)) (gnodes star_graph))"
proof -
  have ids: "map fst (gnodes star_graph) = [0..<length (gnodes star_graph)]"
    by (simp add: star_graph_def upt_rec)
  have n: "nodes star_graph = Inr [(10, 10)]"
    by code_simp
  from nodes_keeps_degree_ge_3 [of star_graph "[(10, 10)]"] ids n show ?thesis by simp
qed

text \<open>
  C2, as the code has it. When the skeleton graph has no node (the graph of a black mask),
  the loop of \<open>nodes\<close> does not run and the empty coordinate list is returned: no
  exception is raised. The scripts define no \<open>TopologyError\<close> and \<open>nodes\<close> has no
  check of emptiness.
\<close>

theorem nodes_empty_graph_returns_empty:
  "gnodes g = [] \<Longrightarrow> nodes g = Inr []"
  by (simp add: nodes_def)

theorem nodes_empty_graph_returns_empty_witness:
  "gnodes empty_graph = [] \<and> nodes empty_graph = Inr []"
proof -
  have e: "gnodes empty_graph = []" by (simp add: empty_graph_def)
  from nodes_empty_graph_returns_empty [OF e] e show ?thesis by simp
qed

text \<open>The claim C2 as stated fails on the graph without nodes: \<open>nodes\<close> returns.\<close>

theorem nodes_black_mask_counterexample:
  "nodes \<lparr>gnodes = [], gadj = (\<lambda>j. [])\<rparr> = Inr []"
  by (simp add: nodes_def)

section \<open>roidetect.centers\<close>

lemma wrap64_id: "- (2 ^ 63) \<le> x \<Longrightarrow> x < 2 ^ 63 \<Longrightarrow> wrap64 x = x"
  by (simp add: wrap64_def)

lemma wrap64_small: "0 \<le> x \<Longrightarrow> x < 2 ^ 62 \<Longrightarrow> wrap64 x = x"
  by (simp add: wrap64_def)

lemma square_bound:
  fixes d :: int
  assumes "\<bar>d\<bar> < 2 ^ 31"
  shows "0 \<le> d\<^sup>2 \<and> d\<^sup>2 < 2 ^ 62"
proof -
  have "\<bar>d\<bar>\<^sup>2 < (2 ^ 31)\<^sup>2"
    using assms by (intro power_strict_mono) simp_all
  then show ?thesis by simp
qed

lemma np_dist_in_range:
  assumes "in_range r" "in_range p"
  shows "np_dist r p = Some (euclid r p)"
proof -
  let ?dx = "fst r - fst p" and ?dy = "snd r - snd p"
  have dx: "\<bar>?dx\<bar> < 2 ^ 31" and dy: "\<bar>?dy\<bar> < 2 ^ 31"
    using assms by (auto simp: in_range_def)
  have wx: "wrap64 ?dx = ?dx" and wy: "wrap64 ?dy = ?dy"
    using dx dy by (auto intro!: wrap64_id)
  from square_bound [OF dx] square_bound [OF dy]
  have sx: "0 \<le> ?dx\<^sup>2" "?dx\<^sup>2 < 2 ^ 62" and sy: "0 \<le> ?dy\<^sup>2" "?dy\<^sup>2 < 2 ^ 62"
    by auto
  have wsx: "wrap64 (?dx\<^sup>2) = ?dx\<^sup>2"
    using sx by (rule wrap64_small)
  have wsy: "wrap64 (?dy\<^sup>2) = ?dy\<^sup>2"
    using sy by (rule wrap64_small)
  have s: "0 \<le> ?dx\<^sup>2 + ?dy\<^sup>2" "?dx\<^sup>2 + ?dy\<^sup>2 < 2 ^ 63"
    using sx sy by auto
  then have ws: "wrap64 (?dx\<^sup>2 + ?dy\<^sup>2) = ?dx\<^sup>2 + ?dy\<^sup>2"
    by (simp add: wrap64_def)
  have wa: "wrap64 \<bar>?dx\<^sup>2 + ?dy\<^sup>2\<bar> = ?dx\<^sup>2 + ?dy\<^sup>2"
    using s by (simp add: wrap64_def)
  have nn: "\<not> ?dx\<^sup>2 + ?dy\<^sup>2 < 0" using s(1) by linarith
  show ?thesis
    by (simp add: np_dist_def Let_def wx wy wsx wsy ws wa nn euclid_def dist2_def)
qed

lemma nearest_sq_eq:
  "in_range r \<Longrightarrow> \<forall>p \<in> set ps. in_range p \<Longrightarrow>
     nearest r ps j (sqrt (real_of_int m)) index = nearest_sq r ps j m index"
  by (induction ps arbitrary: j m index) (simp_all add: np_dist_in_range euclid_def)

lemma sqrt_1e8: "sqrt (real_of_int 100000000) = 10000"
proof -
  have "sqrt ((10000::real)\<^sup>2) = 10000" by (rule real_sqrt_unique) simp_all
  then show ?thesis by simp
qed

lemma nearest_code:
  "in_range r \<Longrightarrow> \<forall>p \<in> set ps. in_range p \<Longrightarrow>
     nearest r ps 0 10000 None = nearest_sq r ps 0 100000000 None"
  using nearest_sq_eq [of r ps 0 100000000 None] by (simp only: sqrt_1e8)

lemma euclid_lt_10000: "euclid r p < 10000 \<longleftrightarrow> dist2 r p < 100000000"
proof -
  have "euclid r p < sqrt (real_of_int 100000000) \<longleftrightarrow> dist2 r p < 100000000"
    unfolding euclid_def real_sqrt_less_iff by linarith
  then show ?thesis by (simp only: sqrt_1e8)
qed

lemma euclid_ge_10000: "10000 \<le> euclid r p \<longleftrightarrow> 100000000 \<le> dist2 r p"
  using euclid_lt_10000 [of r p] by linarith

lemma euclid_le_iff: "euclid r p \<le> euclid r q \<longleftrightarrow> dist2 r p \<le> dist2 r q"
  by (simp add: euclid_def)

lemma euclid_less_iff: "euclid r p < euclid r q \<longleftrightarrow> dist2 r p < dist2 r q"
  by (simp add: euclid_def)

lemma nearest_sq_spec:
  "(if \<exists>p \<in> set ps. dist2 r p < m
    then \<exists>k < length ps. nearest_sq r ps j m index = Some (j + k) \<and> dist2 r (ps ! k) < m \<and>
           (\<forall>p \<in> set ps. dist2 r (ps ! k) \<le> dist2 r p)
    else nearest_sq r ps j m index = index)"
proof (induction ps arbitrary: j m index)
  case Nil
  then show ?case by simp
next
  case (Cons p ps)
  show ?case
  proof (cases "dist2 r p < m")
    case True
    note IH = Cons.IH [of "dist2 r p" "Suc j" "Some j"]
    show ?thesis
    proof (cases "\<exists>q \<in> set ps. dist2 r q < dist2 r p")
      case t: True
      with IH obtain k where k: "k < length ps"
        "nearest_sq r ps (Suc j) (dist2 r p) (Some j) = Some (Suc j + k)"
        "dist2 r (ps ! k) < dist2 r p" "\<forall>q \<in> set ps. dist2 r (ps ! k) \<le> dist2 r q"
        by auto
      have "Suc k < length (p # ps) \<and> nearest_sq r (p # ps) j m index = Some (j + Suc k) \<and>
        dist2 r ((p # ps) ! Suc k) < m \<and>
        (\<forall>q \<in> set (p # ps). dist2 r ((p # ps) ! Suc k) \<le> dist2 r q)"
        using k True by auto
      then show ?thesis using True by (auto simp del: nearest_sq.simps)
    next
      case f: False
      with IH have "nearest_sq r ps (Suc j) (dist2 r p) (Some j) = Some j" by auto
      then have "0 < length (p # ps) \<and> nearest_sq r (p # ps) j m index = Some (j + 0) \<and>
        dist2 r ((p # ps) ! 0) < m \<and>
        (\<forall>q \<in> set (p # ps). dist2 r ((p # ps) ! 0) \<le> dist2 r q)"
        using True f by (auto simp: not_less)
      then show ?thesis using True by (auto simp del: nearest_sq.simps)
    qed
  next
    case False
    note IH = Cons.IH [of m "Suc j" index]
    show ?thesis
    proof (cases "\<exists>q \<in> set ps. dist2 r q < m")
      case t: True
      with IH obtain k where k: "k < length ps"
        "nearest_sq r ps (Suc j) m index = Some (Suc j + k)"
        "dist2 r (ps ! k) < m" "\<forall>q \<in> set ps. dist2 r (ps ! k) \<le> dist2 r q"
        by auto
      have "Suc k < length (p # ps) \<and> nearest_sq r (p # ps) j m index = Some (j + Suc k) \<and>
        dist2 r ((p # ps) ! Suc k) < m \<and>
        (\<forall>q \<in> set (p # ps). dist2 r ((p # ps) ! Suc k) \<le> dist2 r q)"
        using k False by auto
      then show ?thesis using t by (auto simp del: nearest_sq.simps)
    next
      case f: False
      with IH have "nearest_sq r ps (Suc j) m index = index" by auto
      then show ?thesis using False f by auto
    qed
  qed
qed

lemma nearest_spec:
  assumes "in_range r" "\<forall>p \<in> set ps. in_range p"
  shows "(if \<exists>p \<in> set ps. euclid r p < 10000
    then \<exists>k < length ps. nearest r ps 0 10000 None = Some k \<and> euclid r (ps ! k) < 10000 \<and>
           (\<forall>p \<in> set ps. euclid r (ps ! k) \<le> euclid r p)
    else nearest r ps 0 10000 None = None)"
  using nearest_sq_spec [of ps r 100000000 0 None]
  by (auto simp: nearest_code [OF assms] euclid_lt_10000 euclid_le_iff split: if_splits)

lemma nearest_index_bound:
  "nearest r ps j m index = Some k \<Longrightarrow> index = Some k \<or> (j \<le> k \<and> k < j + length ps)"
proof (induction ps arbitrary: j m index)
  case Nil
  then show ?case by simp
next
  case (Cons p ps)
  then show ?case
    by (fastforce split: option.splits if_splits)
qed

text \<open>
  Beyond that range the arithmetic wraps: the square of \<open>2 ^ 32\<close> is 0 in 64 bits, and
  the far point is taken for the nearest.
\<close>

lemma np_dist_wraps: "np_dist (0, 0) (4294967296, 0) = Some 0"
  by (simp add: np_dist_def wrap64_def)

lemma np_dist_near: "np_dist (0, 0) (1, 1) = Some (sqrt 2)"
  by (simp add: np_dist_def wrap64_def)

lemma centers_int64_wrap:
  "centers True [(0, 0)] [(1, 1), (4294967296, 0)] = Inr [Row (4294967296, 0)]"
proof -
  have "(0::real) < sqrt 2" by simp
  moreover have "sqrt 2 < 10000"
    by (rule real_less_lsqrt) simp_all
  ultimately have "nearest (0, 0) [(1, 1), (4294967296, 0)] 0 10000 None = Some 1"
    by (simp add: np_dist_wraps np_dist_near)
  then show ?thesis
    by (simp add: centers_def getitem_def np_array_def del: nearest.simps)
qed

lemma nearest_Some_bound: "nearest r ps 0 m None = Some k \<Longrightarrow> k < length ps"
  using nearest_index_bound [of r ps 0 m None k] by simp

lemma getitem_nearest: "getitem ps (nearest r ps 0 10000 None) = Inr (entry ps r)"
  by (auto simp: getitem_def entry_def dest: nearest_Some_bound split: option.splits)

lemma centers_loop_entries: "centers_loop ps reference = Inr (map (entry ps) reference)"
  by (induction reference) (simp_all add: getitem_nearest del: nearest.simps)

lemma entry_cases: "entry ps r = NewAxis ps \<or> (\<exists>q. entry ps r = Row q)"
  by (simp add: entry_def split: option.splits)

lemma centers_cases:
  "centers rr reference ps = Inr (map (entry ps) reference) \<or>
   rr \<and> centers rr reference ps = Inl ValueError \<and>
     (\<exists>q. Row q \<in> set (map (entry ps) reference)) \<and> NewAxis ps \<in> set (map (entry ps) reference)"
proof (cases "rr \<and> (\<exists>x \<in> set (map (entry ps) reference). \<exists>y \<in> set (map (entry ps) reference).
    item_shape x \<noteq> item_shape y)")
  case False
  then have "np_array rr item_shape (map (entry ps) reference) = Inr (map (entry ps) reference)"
    unfolding np_array_def by (simp only: if_False simp_thms)
  then show ?thesis
    by (simp add: centers_def centers_loop_entries)
next
  case True
  then obtain x y where xy: "x \<in> set (map (entry ps) reference)"
    "y \<in> set (map (entry ps) reference)" "item_shape x \<noteq> item_shape y"
    by blast
  from xy(1,2) entry_cases [of ps] have
    cx: "x = NewAxis ps \<or> (\<exists>q. x = Row q)" and cy: "y = NewAxis ps \<or> (\<exists>q. y = Row q)"
    by auto
  have "(\<exists>q. Row q \<in> set (map (entry ps) reference)) \<and>
      NewAxis ps \<in> set (map (entry ps) reference)"
  proof (cases "x = NewAxis ps")
    case True
    with xy(3) cy obtain q where "y = Row q" by auto
    with True xy(1,2) show ?thesis by blast
  next
    case False
    with cx obtain q where q: "x = Row q" by blast
    with xy(3) cy have "y = NewAxis ps" by auto
    with q xy(1,2) show ?thesis by blast
  qed
  moreover from True
  have "np_array rr item_shape (map (entry ps) reference) = Inl ValueError"
    unfolding np_array_def by (simp only: if_True simp_thms)
  then have "centers rr reference ps = Inl ValueError"
    by (simp add: centers_def centers_loop_entries)
  ultimately show ?thesis using True by blast
qed

lemma nearest_far:
  assumes "in_range r" "\<forall>p \<in> set ps. in_range p" "\<forall>p \<in> set ps. 10000 \<le> euclid r p"
  shows "nearest r ps 0 10000 None = None"
  using nearest_spec [OF assms(1,2)] assms(3) by (auto split: if_splits simp: not_less [symmetric])

text \<open>
  C9, as the code has it, for coordinates below \<open>2 ^ 30\<close> in absolute value. The search
  selects only a detected point at a distance strictly below 10000. When every detected
  point is at distance 10000 or more from a reference point, \<open>index\<close> stays \<open>None\<close> for
  it; \<open>ps[None]\<close> raises nothing and is the whole array under a new axis, which becomes
  the entry of that reference point in \<open>newpoints\<close>, so that no matching is returned.
  The loop never raises; \<open>centers\<close> returns \<open>newpoints\<close>, or raises the \<open>ValueError\<close>
  of \<open>np.array\<close> on entries of two shapes (another reference point did get a detected
  point); when \<open>index\<close> stays \<open>None\<close> for every reference point it returns.
\<close>

theorem centers_sentinel_10000:
  assumes "in_range r" and "\<forall>p \<in> set ps. in_range p"
  shows "(nearest r ps 0 10000 None = Some j \<longrightarrow> j < length ps \<and> euclid r (ps ! j) < 10000) \<and>
    ((\<forall>p \<in> set ps. 10000 \<le> euclid r p) \<longrightarrow>
       nearest r ps 0 10000 None = None \<and> getitem ps None = Inr (NewAxis ps) \<and>
       (\<exists>its. centers_loop ps reference = Inr its \<and> length its = length reference \<and>
          (\<forall>i < length reference. reference ! i = r \<longrightarrow> its ! i = NewAxis ps) \<and>
          (centers rr reference ps = Inr its \<or>
           rr \<and> centers rr reference ps = Inl ValueError \<and>
             (\<exists>q. Row q \<in> set its) \<and> NewAxis ps \<in> set its))) \<and>
    ((\<forall>r' \<in> set reference. nearest r' ps 0 10000 None = None) \<longrightarrow>
       centers rr reference ps = Inr (replicate (length reference) (NewAxis ps)))"
proof (intro conjI impI)
  assume "nearest r ps 0 10000 None = Some j"
  with nearest_spec [OF assms]
  show "j < length ps" and "euclid r (ps ! j) < 10000"
    by (auto split: if_splits)
next
  assume far: "\<forall>p \<in> set ps. 10000 \<le> euclid r p"
  from nearest_far [OF assms far] show n: "nearest r ps 0 10000 None = None" .
  show "getitem ps None = Inr (NewAxis ps)" by (simp add: getitem_def)
  let ?its = "map (entry ps) reference"
  have "\<forall>i < length reference. reference ! i = r \<longrightarrow> ?its ! i = NewAxis ps"
    using n by (simp add: entry_def)
  with centers_loop_entries [of ps reference] centers_cases [of rr reference ps]
  show "\<exists>its. centers_loop ps reference = Inr its \<and> length its = length reference \<and>
          (\<forall>i < length reference. reference ! i = r \<longrightarrow> its ! i = NewAxis ps) \<and>
          (centers rr reference ps = Inr its \<or>
           rr \<and> centers rr reference ps = Inl ValueError \<and>
             (\<exists>q. Row q \<in> set its) \<and> NewAxis ps \<in> set its)"
    by (intro exI [of _ ?its]) simp
next
  assume none: "\<forall>r' \<in> set reference. nearest r' ps 0 10000 None = None"
  then have "map (entry ps) reference = map (\<lambda>r'. NewAxis ps) reference"
    by (simp add: entry_def)
  then have m: "map (entry ps) reference = replicate (length reference) (NewAxis ps)"
    by (simp only: map_replicate_const)
  then have "\<not> (\<exists>q. Row q \<in> set (map (entry ps) reference))" by auto
  with centers_cases [of rr reference ps] m
  show "centers rr reference ps = Inr (replicate (length reference) (NewAxis ps))"
    by auto
qed

theorem centers_sentinel_10000_witness:
  "in_range (0, 0) \<and> in_range (10000, 0) \<and> in_range (9999, 0) \<and>
   10000 \<le> euclid (0, 0) (10000, 0) \<and>
   nearest (0, 0) [(10000, 0)] 0 10000 None = None \<and>
   centers_loop [(10000, 0)] [(0, 0)] = Inr [NewAxis [(10000, 0)]] \<and>
   centers True [(0, 0)] [(10000, 0)] = Inr (replicate (length [(0::int, 0::int)]) (NewAxis [(10000, 0)])) \<and>
   nearest (0, 0) [(9999, 0)] 0 10000 None = Some 0 \<and>
   euclid (0, 0) ([(9999, 0)] ! 0) < 10000"
proof -
  have r0: "in_range (0, 0)" and r1: "in_range (10000, 0)" and r2: "in_range (9999, 0)"
    by (simp_all add: in_range_def)
  have far: "10000 \<le> euclid (0, 0) (10000, 0)"
    by (simp add: euclid_ge_10000 dist2_def)
  then have h: "\<forall>p \<in> set [(10000, 0)]. 10000 \<le> euclid (0, 0) p" by simp
  have p1: "\<forall>p \<in> set [(10000, 0)]. in_range p" using r1 by simp
  have p2: "\<forall>p \<in> set [(9999, 0)]. in_range p" using r2 by simp
  have n: "nearest (0, 0) [(9999, 0)] 0 10000 None = Some 0"
    by (subst nearest_code) (simp_all add: in_range_def dist2_def)
  note t1 = centers_sentinel_10000 [OF r0 p1, of 0 "[(0, 0)]" True]
  from t1 h have 1: "nearest (0, 0) [(10000, 0)] 0 10000 None = None" by blast
  from t1 h obtain its where its: "centers_loop [(10000, 0)] [(0, 0)] = Inr its"
    "length its = length [(0::int, 0::int)]"
    "\<forall>i < length [(0::int, 0::int)]. [(0::int, 0::int)] ! i = (0, 0) \<longrightarrow> its ! i = NewAxis [(10000, 0)]"
    by blast
  from its(2,3) have "its = [NewAxis [(10000, 0)]]"
    by (cases its) auto
  with its(1) have 2: "centers_loop [(10000, 0)] [(0, 0)] = Inr [NewAxis [(10000, 0)]]" by simp
  from t1 1 have 3: "centers True [(0, 0)] [(10000, 0)] =
      Inr (replicate (length [(0::int, 0::int)]) (NewAxis [(10000, 0)]))"
    by simp
  from centers_sentinel_10000 [OF r0 p2, of 0 "[]" True] n
  have 4: "euclid (0, 0) ([(9999, 0)] ! 0) < 10000" by blast
  from r0 r1 r2 far 1 2 3 n 4 show ?thesis by blast
qed

text \<open>
  The claim C9 as stated fails: with the one detected point at distance 10000,
  \<open>centers\<close> raises nothing and returns.
\<close>

theorem centers_no_exception_counterexample:
  "centers True [(0, 0)] [(10000, 0)] = Inr [NewAxis [(10000, 0)]]"
proof -
  have "nearest (0, 0) [(10000, 0)] 0 10000 None = None"
    by (subst nearest_code) (simp_all add: in_range_def dist2_def)
  then show ?thesis
    by (simp add: centers_def getitem_def np_array_def del: nearest.simps)
qed

text \<open>
  C4. The comment of line 113 and the docstring promise, for each reference point, the
  closest detected point. For the reference point \<open>(0, 0)\<close> and the single detected
  point \<open>(6000, 8000)\<close>, at distance 10000, the code returns the array under a new axis
  and not that point: \<open>min_dist = 10000\<close> stands for infinity and \<open>index = None\<close> is not
  handled.
\<close>

theorem centers_closest_point_not_returned:
  "centers True [(0, 0)] [(6000, 8000)] = Inr [NewAxis [(6000, 8000)]] \<and>
   euclid (0, 0) (6000, 8000) = 10000"
proof -
  have "nearest (0, 0) [(6000, 8000)] 0 10000 None = None"
    by (subst nearest_code) (simp_all add: in_range_def dist2_def)
  then have "centers True [(0, 0)] [(6000, 8000)] = Inr [NewAxis [(6000, 8000)]]"
    by (simp add: centers_def getitem_def np_array_def del: nearest.simps)
  moreover have "euclid (0, 0) (6000, 8000) = 10000"
    using sqrt_1e8 by (simp add: euclid_def dist2_def)
  ultimately show ?thesis by simp
qed

text \<open>
  Where every reference point has a detected point at a distance below 10000, and no
  coordinate reaches \<open>2 ^ 30\<close>, the result is a closest detected point for each
  reference point.
\<close>

lemma centers_nearest_within_reach:
  assumes "\<forall>r \<in> set reference. in_range r" and "\<forall>p \<in> set ps. in_range p"
    and "\<forall>r \<in> set reference. \<exists>p \<in> set ps. euclid r p < 10000"
  shows "\<exists>qs. centers rr reference ps = Inr (map Row qs) \<and> length qs = length reference \<and>
           (\<forall>i < length reference. qs ! i \<in> set ps \<and>
              (\<forall>p \<in> set ps. euclid (reference ! i) (qs ! i) \<le> euclid (reference ! i) p))"
proof -
  have e: "\<exists>q \<in> set ps. entry ps r = Row q \<and> (\<forall>p \<in> set ps. euclid r q \<le> euclid r p)"
    if "r \<in> set reference" for r
  proof -
    from that assms have "in_range r" "\<exists>p \<in> set ps. euclid r p < 10000" by auto
    with nearest_spec [OF this(1) assms(2)] obtain k where "k < length ps"
      "nearest r ps 0 10000 None = Some k" "\<forall>p \<in> set ps. euclid r (ps ! k) \<le> euclid r p"
      by auto
    then show ?thesis by (auto simp: entry_def)
  qed
  define pick where "pick r = (case entry ps r of Row q \<Rightarrow> q | NewAxis x \<Rightarrow> r)" for r
  have pk: "entry ps r = Row (pick r) \<and> pick r \<in> set ps \<and>
      (\<forall>p \<in> set ps. euclid r (pick r) \<le> euclid r p)" if "r \<in> set reference" for r
    using e [OF that] by (auto simp: pick_def)
  let ?qs = "map pick reference"
  have m: "map (entry ps) reference = map Row ?qs" using pk by simp
  then have "\<not> NewAxis ps \<in> set (map (entry ps) reference)" by auto
  with centers_cases [of rr reference ps] m
  have "centers rr reference ps = Inr (map Row ?qs)" by auto
  moreover have "\<forall>i < length reference. ?qs ! i \<in> set ps \<and>
      (\<forall>p \<in> set ps. euclid (reference ! i) (?qs ! i) \<le> euclid (reference ! i) p)"
    using pk by simp
  ultimately show ?thesis by (intro exI [of _ ?qs]) simp
qed

section \<open>roidetect.vertices\<close>

lemma segdists_sq: "segdists poly = map (\<lambda>k. sqrt (real_of_int k)) (segdists_sq poly)"
  by (simp add: segdists_def segdists_sq_def)

lemma first_index_map_inj:
  "inj g \<Longrightarrow> first_index (g x) (map g xs) = first_index x xs"
  by (induction xs) (auto dest: injD)

lemma Max_map_mono:
  fixes g :: "'a::linorder \<Rightarrow> 'b::linorder"
  assumes "mono g" "xs \<noteq> []"
  shows "Max (set (map g xs)) = g (Max (set xs))"
  using mono_Max_commute [OF assms(1), of "set xs"] assms(2) by simp

lemma np_argmax_map:
  fixes g :: "'a::linorder \<Rightarrow> 'b::linorder"
  assumes "strict_mono g"
  shows "np_argmax (map g xs) = np_argmax xs"
proof (cases "xs = []")
  case True
  then show ?thesis by (simp add: np_argmax_def)
next
  case False
  have "mono g" using assms by (rule strict_mono_mono)
  moreover have "inj g" using assms by (rule strict_mono_imp_inj_on)
  ultimately show ?thesis using False
    by (simp add: np_argmax_def Max_map_mono first_index_map_inj del: set_map)
qed

lemma strict_mono_sqrt_int: "strict_mono (\<lambda>k::int. sqrt (real_of_int k))"
  by (simp add: strict_mono_def)

lemma np_argmax_segdists: "np_argmax (segdists poly) = np_argmax (segdists_sq poly)"
  unfolding segdists_sq by (rule np_argmax_map [OF strict_mono_sqrt_int])

lemma zip_longer_left:
  "length ys \<le> length xs \<Longrightarrow> zip (xs @ zs) ys = zip xs ys"
  by (induction xs ys rule: list_induct2') simp_all

lemma diff_nonempty:
  assumes "poly \<noteq> []"
  shows "np_diff_append_first poly =
     map (\<lambda>(p, q). (fst q - fst p, snd q - snd p)) (zip poly (rotate1 poly))"
proof -
  from assms obtain a list where p: "poly = a # list" by (cases poly) auto
  have "zip ((a # list) @ [a]) (list @ [a]) = zip (a # list) (list @ [a])"
    by (rule zip_longer_left) simp
  then show ?thesis by (simp add: p np_diff_append_first_def)
qed

lemma zip_rotate:
  "length xs = length ys \<Longrightarrow> zip (rotate n xs) (rotate n ys) = rotate n (zip xs ys)"
  by (simp add: rotate_drop_take zip_append drop_zip take_zip)

lemma diff_rotate:
  "np_diff_append_first (rotate n poly) = rotate n (np_diff_append_first poly)"
proof (cases "poly = []")
  case True
  then show ?thesis by (simp add: np_diff_append_first_def)
next
  case False
  then have "rotate n poly \<noteq> []" by simp
  then show ?thesis using False
    by (simp add: diff_nonempty rotate1_rotate_swap zip_rotate rotate_map)
qed

lemma segdists_rotate: "segdists (rotate n poly) = rotate n (segdists poly)"
  by (simp add: segdists_def diff_rotate rotate_map)

lemma length_segdists: "length (segdists poly) = length poly"
  by (cases poly) (simp_all add: segdists_def np_diff_append_first_def)

lemma first_index_Max:
  "xs \<noteq> [] \<Longrightarrow> first_index (Max (set xs)) xs < length xs \<and>
     xs ! first_index (Max (set xs)) xs = Max (set xs)"
proof -
  have a: "x \<in> set xs \<Longrightarrow> first_index x xs < length xs \<and> xs ! first_index x xs = x" for x
    by (induction xs) auto
  assume "xs \<noteq> []"
  then have "Max (set xs) \<in> set xs" by (intro Max_in) auto
  from a [OF this] show ?thesis .
qed

lemma first_index_hd: "xs \<noteq> [] \<Longrightarrow> first_index (hd xs) xs = 0"
  by (cases xs) simp_all

lemma np_roll_neg: "i < length xs \<Longrightarrow> np_roll (- int i) xs = rotate i xs"
  by (auto simp: np_roll_def)

lemma longest_edge_first_eq:
  assumes "poly \<noteq> []"
  shows "longest_edge_first poly =
     Inr (rotate (first_index (Max (set (segdists poly))) (segdists poly)) poly)"
proof -
  have ne: "segdists poly \<noteq> []" using assms length_segdists [of poly] by auto
  from first_index_Max [OF ne]
  have "first_index (Max (set (segdists poly))) (segdists poly) < length poly"
    by (simp add: length_segdists)
  with ne show ?thesis
    by (simp add: longest_edge_first_def np_argmax_def np_roll_neg)
qed

lemma longest_edge_at_front:
  assumes "poly \<noteq> []"
  defines "i \<equiv> first_index (Max (set (segdists poly))) (segdists poly)"
  shows "first_index (Max (set (segdists (rotate i poly)))) (segdists (rotate i poly)) = 0"
proof -
  let ?ds = "segdists poly"
  have ne: "?ds \<noteq> []" using assms(1) length_segdists [of poly] by auto
  from first_index_Max [OF ne] have i: "i < length ?ds" and m: "?ds ! i = Max (set ?ds)"
    by (simp_all add: i_def)
  have dq: "segdists (rotate i poly) = rotate i ?ds" by (rule segdists_rotate)
  have "hd (rotate i ?ds) = ?ds ! i"
    using ne i by (simp add: hd_rotate_conv_nth)
  with m have "hd (segdists (rotate i poly)) = Max (set (segdists (rotate i poly)))"
    by (simp add: dq)
  moreover have nq: "segdists (rotate i poly) \<noteq> []" using ne by (simp add: dq)
  ultimately show ?thesis using first_index_hd [OF nq] by simp
qed

text \<open>
  C5. Rolling a polygon so that its longest edge starts it, and doing so again, changes
  nothing the second time: the longest edge is then the first one, \<open>np.argmax\<close> returns
  0 and the polygon is rolled by 0.
\<close>

theorem longest_edge_first_idempotent:
  assumes "poly \<noteq> []"
  shows "\<exists>q. longest_edge_first poly = Inr q \<and> longest_edge_first q = Inr q"
proof -
  let ?q = "rotate (first_index (Max (set (segdists poly))) (segdists poly)) poly"
  have first: "longest_edge_first poly = Inr ?q"
    using assms by (rule longest_edge_first_eq)
  have nq: "?q \<noteq> []" using assms by simp
  have "longest_edge_first ?q = Inr (rotate 0 ?q)"
    using longest_edge_first_eq [OF nq] longest_edge_at_front [OF assms] by simp
  with first show ?thesis by simp
qed

theorem longest_edge_first_idempotent_witness:
  "hexagon \<noteq> [] \<and>
   longest_edge_first hexagon = Inr [(0, 6), (-3, 3), (0, 0), (4, 0), (6, 3), (4, 6)] \<and>
   longest_edge_first [(0, 6), (-3, 3), (0, 0), (4, 0), (6, 3), (4, 6)] =
     Inr [(0, 6), (-3, 3), (0, 0), (4, 0), (6, 3), (4, 6)]"
proof -
  have ne: "hexagon \<noteq> []" by (simp add: hexagon_def)
  have l: "longest_edge_first hexagon = Inr [(0, 6), (-3, 3), (0, 0), (4, 0), (6, 3), (4, 6)]"
    unfolding longest_edge_first_def np_argmax_segdists
    by (simp add: hexagon_def segdists_sq_def np_diff_append_first_def np_argmax_def np_roll_def rotate_drop_take)
  from longest_edge_first_idempotent [OF ne] l ne show ?thesis by auto
qed

lemma length_np_roll: "length (np_roll s xs) = length xs"
  by (simp add: np_roll_def)

lemma np_roll_nth:
  assumes "k < length xs"
  shows "np_roll s xs ! (nat ((int k + s) mod int (length xs))) = xs ! k"
proof -
  let ?n = "int (length xs)"
  from assms have ne: "xs \<noteq> []" and pos: "0 < ?n" by auto
  let ?m = "nat ((- s) mod ?n)"
  let ?t = "nat ((int k + s) mod ?n)"
  have t: "?t < length xs" using pos by (simp add: nat_less_iff)
  have "int ((?m + ?t) mod length xs) = ((- s) mod ?n + (int k + s) mod ?n) mod ?n"
    using pos by (simp add: zmod_int)
  also have "\<dots> = (- s + (int k + s)) mod ?n" by (simp add: mod_add_eq)
  also have "\<dots> = int k" using assms by simp
  finally have "(?m + ?t) mod length xs = k" by linarith
  with t ne show ?thesis by (simp add: np_roll_def nth_rotate)
qed

lemma np_roll_2_nth:
  assumes "k < length xs"
  shows "np_roll 2 xs ! ((k + 2) mod length xs) = xs ! k"
proof -
  have "nat ((int k + 2) mod int (length xs)) = (k + 2) mod length xs"
    by (simp add: nat_mod_distrib nat_add_distrib)
  with np_roll_nth [OF assms, of 2] show ?thesis by simp
qed

text \<open>
  C7. After the longest edge has been put first, the vertex sequence of junction \<open>i\<close> is
  rolled by two positions (the vertex at position \<open>k\<close> moves to position \<open>k + 2\<close>,
  cyclically) when the label \<open>Dict[i]\<close> is one of the seventeen labels of line 176,
  and it is left as it is for every other label.
\<close>

theorem reorder_chirality:
  assumes "poly \<noteq> []" and "Dict i = Some label"
  shows "\<exists>roll out. longest_edge_first poly = Inr roll \<and> reorder Dict i poly = Inr out \<and>
           length out = length roll \<and>
           (if label \<in> {5, 3, 0, 2, 6, 50, 32, 20, 212, 211, 60, 41, 42, 121, 122, 111, 112}
            then \<forall>k < length roll. out ! ((k + 2) mod length roll) = roll ! k
            else out = roll)"
proof -
  from longest_edge_first_eq [OF assms(1)] obtain roll
    where roll: "longest_edge_first poly = Inr roll" by blast
  let ?out = "if label \<in> right_junctions then np_roll 2 roll else roll"
  have r: "reorder Dict i poly = Inr ?out"
    using roll assms(2) by (simp add: reorder_def)
  have l: "length ?out = length roll" by (simp add: length_np_roll)
  have "if label \<in> {5, 3, 0, 2, 6, 50, 32, 20, 212, 211, 60, 41, 42, 121, 122, 111, 112}
        then \<forall>k < length roll. ?out ! ((k + 2) mod length roll) = roll ! k
        else ?out = roll"
    using np_roll_2_nth [of _ roll] unfolding right_junctions_def by simp
  with roll r l show ?thesis by blast
qed

theorem reorder_chirality_witness:
  "hexagon \<noteq> [] \<and> main_Dict 0 = Some 42 \<and> main_Dict 4 = Some 12 \<and>
   longest_edge_first hexagon = Inr [(0, 6), (-3, 3), (0, 0), (4, 0), (6, 3), (4, 6)] \<and>
   reorder main_Dict 0 hexagon = Inr [(6, 3), (4, 6), (0, 6), (-3, 3), (0, 0), (4, 0)] \<and>
   reorder main_Dict 4 hexagon = Inr [(0, 6), (-3, 3), (0, 0), (4, 0), (6, 3), (4, 6)]"
proof -
  have ne: "hexagon \<noteq> []" by (simp add: hexagon_def)
  have d0: "main_Dict 0 = Some 42" and d4: "main_Dict 4 = Some 12"
    by (simp_all add: main_Dict_def)
  have l: "longest_edge_first hexagon = Inr [(0, 6), (-3, 3), (0, 0), (4, 0), (6, 3), (4, 6)]"
    unfolding longest_edge_first_def np_argmax_segdists
    by (simp add: hexagon_def segdists_sq_def np_diff_append_first_def np_argmax_def np_roll_def rotate_drop_take)
  have r0: "reorder main_Dict 0 hexagon = Inr [(6, 3), (4, 6), (0, 6), (-3, 3), (0, 0), (4, 0)]"
    by (simp add: reorder_def l d0 right_junctions_def np_roll_def rotate_drop_take)
  from reorder_chirality [of hexagon main_Dict 4 12, OF ne d4] l
  have r4: "reorder main_Dict 4 hexagon = Inr [(0, 6), (-3, 3), (0, 0), (4, 0), (6, 3), (4, 6)]"
    by auto
  from ne d0 d4 l r0 r4 show ?thesis by blast
qed

section \<open>bridgedetect\<close>

lemma format_roi_4: "length roi = 4 \<Longrightarrow> format_roi roi = Inr (quad_text roi)"
proof -
  assume "length roi = 4"
  then obtain a b c d where "roi = [a, b, c, d]"
    by (auto simp: length_Suc_conv eval_nat_numeral)
  then show ?thesis by (simp add: format_roi_def quad_text_def)
qed

lemma map_format_roi_4:
  "\<forall>roi \<in> set rois. length roi = 4 \<Longrightarrow> map_format_roi rois = Inr (map quad_text rois)"
  by (induction rois) (simp_all add: format_roi_4)

lemma digit_char_not_newline: "d < 10 \<Longrightarrow> digit_char d \<noteq> newline"
proof -
  assume "d < 10"
  then have "digit_char d \<in> set ''0123456789''"
    unfolding digit_char_def by (intro nth_mem) simp
  moreover have "newline \<notin> set ''0123456789''" by (simp add: newline_def)
  ultimately show ?thesis by metis
qed

lemma newline_not_in_str_nat: "newline \<notin> set (str_nat n)"
proof (induction n rule: str_nat.induct)
  case (1 n)
  show ?case
  proof (cases "n < 10")
    case True
    then show ?thesis
      using digit_char_not_newline [of n] by (subst str_nat.simps) simp
  next
    case False
    have "n mod 10 < 10" by simp
    from digit_char_not_newline [OF this] 1 False show ?thesis
      by (subst str_nat.simps) simp
  qed
qed

lemma newline_not_in_format_d: "newline \<notin> set (format_d n)"
  using newline_not_in_str_nat [of "nat n"] newline_not_in_str_nat [of "nat (- n)"]
  by (simp add: format_d_def newline_def)

lemma newline_not_in_quad: "newline \<notin> set (quad_text roi)"
  using newline_not_in_format_d [of "roi ! 0"] newline_not_in_format_d [of "roi ! 1"]
    newline_not_in_format_d [of "roi ! 2"] newline_not_in_format_d [of "roi ! 3"]
  by (simp add: quad_text_def newline_def)

lemma newline_not_in_join:
  "\<forall>s \<in> set ss. newline \<notin> set s \<Longrightarrow> newline \<notin> set (join [tab] ss)"
  by (induction "[tab]" ss rule: join.induct) (auto simp: tab_def newline_def)

lemma count_list_0: "x \<notin> set xs \<Longrightarrow> count_list xs x = 0"
  by (induction xs) auto

lemma join_tab_concat:
  "ss \<noteq> [] \<Longrightarrow> tab # join [tab] ss = concat (map (\<lambda>s. tab # s) ss)"
  by (induction "[tab]" ss rule: join.induct) simp_all

lemma digit_cases:
  assumes "d < (10::nat)"
  obtains "d = 0" | "d = 1" | "d = 2" | "d = 3" | "d = 4" | "d = 5" | "d = 6" | "d = 7"
    | "d = 8" | "d = 9"
  using assms by atomize_elim arith

lemma digit_char_props:
  assumes "d < 10"
  shows "digit_char d \<in> set ''0123456789''"
    and "of_char (digit_char d) = 48 + d"
    and "digit_char d = CHR ''0'' \<longleftrightarrow> d = 0"
proof -
  show "digit_char d \<in> set ''0123456789''"
    using assms unfolding digit_char_def by (intro nth_mem) simp
  show "of_char (digit_char d) = 48 + d"
    using assms by (cases d rule: digit_cases) (simp_all add: digit_char_def)
  show "digit_char d = CHR ''0'' \<longleftrightarrow> d = 0"
    using assms by (cases d rule: digit_cases) (simp_all add: digit_char_def)
qed

lemma decimal_value_snoc:
  "decimal_value (ds @ [c]) = 10 * decimal_value ds + (of_char c - 48)"
  by (simp add: decimal_value_def)

lemma str_nat_decimal:
  "str_nat n \<noteq> [] \<and> (\<forall>c \<in> set (str_nat n). c \<in> set ''0123456789'') \<and>
   decimal_value (str_nat n) = n \<and> (hd (str_nat n) = CHR ''0'' \<longrightarrow> n = 0)"
proof (induction n rule: str_nat.induct)
  case (1 n)
  show ?case
  proof (cases "n < 10")
    case True
    then have s: "str_nat n = [digit_char n]" by (subst str_nat.simps) simp
    from digit_char_props [OF True] show ?thesis
      by (simp add: s decimal_value_def)
  next
    case False
    then have s: "str_nat n = str_nat (n div 10) @ [digit_char (n mod 10)]"
      by (subst str_nat.simps) simp
    have m: "n mod 10 < 10" by simp
    from 1 False have IH: "str_nat (n div 10) \<noteq> []"
      "\<forall>c \<in> set (str_nat (n div 10)). c \<in> set ''0123456789''"
      "decimal_value (str_nat (n div 10)) = n div 10"
      "hd (str_nat (n div 10)) = CHR ''0'' \<longrightarrow> n div 10 = 0"
      by auto
    have a: "str_nat n \<noteq> []" by (simp add: s)
    have b: "\<forall>c \<in> set (str_nat n). c \<in> set ''0123456789''"
    proof
      fix c assume "c \<in> set (str_nat n)"
      then have "c \<in> set (str_nat (n div 10)) \<or> c = digit_char (n mod 10)"
        unfolding s by auto
      with IH(2) digit_char_props(1) [OF m] show "c \<in> set ''0123456789''" by blast
    qed
    have c: "decimal_value (str_nat n) = n"
      unfolding s decimal_value_snoc using IH(3) digit_char_props(2) [OF m] by simp
    have "hd (str_nat n) = hd (str_nat (n div 10))" using IH(1) by (simp add: s)
    moreover have "n div 10 \<noteq> 0" using False by simp
    ultimately have d: "hd (str_nat n) = CHR ''0'' \<longrightarrow> n = 0" using IH(4) by simp
    from a b c d show ?thesis by blast
  qed
qed

lemma str_nat_0: "str_nat 0 = ''0''"
  by (subst str_nat.simps) (simp add: digit_char_def)

lemma format_d_decimal:
  "\<exists>ds. format_d n = (if n < 0 then CHR ''-'' # ds else ds) \<and> ds \<noteq> [] \<and>
     (\<forall>c \<in> set ds. c \<in> set ''0123456789'') \<and> decimal_value ds = nat \<bar>n\<bar> \<and>
     (hd ds = CHR ''0'' \<longrightarrow> ds = ''0'')"
proof -
  let ?ds = "str_nat (nat \<bar>n\<bar>)"
  have f: "format_d n = (if n < 0 then CHR ''-'' # ?ds else ?ds)"
    by (simp add: format_d_def abs_if)
  from str_nat_decimal [of "nat \<bar>n\<bar>"] have p: "?ds \<noteq> []"
    "\<forall>c \<in> set ?ds. c \<in> set ''0123456789''" "decimal_value ?ds = nat \<bar>n\<bar>"
    "hd ?ds = CHR ''0'' \<longrightarrow> nat \<bar>n\<bar> = 0"
    by blast+
  from p(4) have "hd ?ds = CHR ''0'' \<longrightarrow> ?ds = ''0''"
    using str_nat_0 by auto
  with f p(1-3) show ?thesis by blast
qed

lemma bounding_box:
  assumes "poly \<noteq> []"
  shows "\<exists>w h x y. convert_polygon_to_roi poly = Inr [w, h, x, y] \<and>
     (\<forall>p \<in> set poly. x \<le> fst p \<and> fst p \<le> x + w \<and> y \<le> snd p \<and> snd p \<le> y + h) \<and>
     (\<exists>p \<in> set poly. fst p = x) \<and> (\<exists>p \<in> set poly. fst p = x + w) \<and>
     (\<exists>p \<in> set poly. snd p = y) \<and> (\<exists>p \<in> set poly. snd p = y + h)"
proof -
  let ?X = "fst ` set poly" and ?Y = "snd ` set poly"
  have fin: "finite ?X" "finite ?Y" and ne: "?X \<noteq> {}" "?Y \<noteq> {}"
    using assms by auto
  have c: "convert_polygon_to_roi poly = Inr [Max ?X - Min ?X, Max ?Y - Min ?Y, Min ?X, Min ?Y]"
    using assms by (simp add: convert_polygon_to_roi_def Let_def)
  have box: "\<forall>p \<in> set poly. Min ?X \<le> fst p \<and> fst p \<le> Min ?X + (Max ?X - Min ?X) \<and>
      Min ?Y \<le> snd p \<and> snd p \<le> Min ?Y + (Max ?Y - Min ?Y)"
    using fin by (auto intro: Min_le Max_ge)
  from Min_in [OF fin(1) ne(1)] have x0: "\<exists>p \<in> set poly. fst p = Min ?X" by force
  from Max_in [OF fin(1) ne(1)] have x1: "\<exists>p \<in> set poly. fst p = Min ?X + (Max ?X - Min ?X)"
    by force
  from Min_in [OF fin(2) ne(2)] have y0: "\<exists>p \<in> set poly. snd p = Min ?Y" by force
  from Max_in [OF fin(2) ne(2)] have y1: "\<exists>p \<in> set poly. snd p = Min ?Y + (Max ?Y - Min ?Y)"
    by force
  from c box x0 x1 y0 y1 show ?thesis by blast
qed

lemma line_body:
  "abspath imagename @ [tab] @ join [tab] (map quad_text rois) @ [newline] =
   abspath imagename @
   (if rois = [] then [tab]
    else concat (map (\<lambda>roi. tab # format_d (roi ! 0) @ '','' @ format_d (roi ! 1) @ '','' @
                          format_d (roi ! 2) @ '','' @ format_d (roi ! 3)) rois)) @
   [newline]"
proof (cases "rois = []")
  case True
  then show ?thesis by simp
next
  case False
  then have "map quad_text rois \<noteq> []" by simp
  from join_tab_concat [OF this] False show ?thesis
    by (simp add: comp_def quad_text_def)
qed

lemma save_rois_line:
  assumes "open_error outfile = None" and "\<forall>roi \<in> set rois. length roi = 4"
  shows "save_rois abspath open_error rois outfile imagename append_mode fs =
     (None, fs(outfile \<mapsto>
        (if outfile \<in> dom fs \<and> append_mode then the (fs outfile) else []) @
        abspath imagename @
        (if rois = [] then [tab]
         else concat (map (\<lambda>roi. tab # format_d (roi ! 0) @ '','' @ format_d (roi ! 1) @ '','' @
                               format_d (roi ! 2) @ '','' @ format_d (roi ! 3)) rois)) @
        [newline]))"
proof -
  have "save_rois abspath open_error rois outfile imagename append_mode fs =
      (None, fs(outfile \<mapsto>
         (if outfile \<in> dom fs \<and> append_mode then the (fs outfile) else []) @
         abspath imagename @ [tab] @ join [tab] (map quad_text rois) @ [newline]))"
    using map_format_roi_4 [OF assms(2)] assms(1) by (auto simp: save_rois_def)
  then show ?thesis by (simp only: line_body)
qed

lemma one_newline:
  assumes "newline \<notin> set path"
  shows "count_list (path @ [tab] @ join [tab] (map quad_text rois) @ [newline]) newline = 1"
proof -
  have "newline \<notin> set (join [tab] (map quad_text rois))"
    by (rule newline_not_in_join) (simp add: newline_not_in_quad)
  then have "count_list (join [tab] (map quad_text rois)) newline = 0" by (rule count_list_0)
  moreover have "count_list path newline = 0" using assms by (rule count_list_0)
  ultimately show ?thesis by (simp add: tab_def newline_def)
qed

text \<open>
  C8, as the code has it. For regions of four integers, an output file that can be
  opened and a video whose absolute path has no newline, \<open>save_rois\<close> adds to the file
  exactly one line: the absolute path, then for each region a tab and its four entries
  in decimal, separated by commas, then a newline; with no region the path is followed
  by a single tab. When the file cannot be opened nothing is written. \<open>'%d'\<close> gives the
  decimal digits of the number without leading zeros, after a minus sign when negative.
  The region of \<open>convert_polygon_to_roi\<close> is width, height, left x, top y, in that
  order, of the smallest upright rectangle that holds the points.
\<close>

theorem save_rois_one_line:
  "(open_error outfile = None \<and> (\<forall>roi \<in> set rois. length roi = 4) \<and>
    newline \<notin> set (abspath imagename) \<longrightarrow>
      (\<exists>line. save_rois abspath open_error rois outfile imagename append_mode fs =
           (None, fs(outfile \<mapsto>
              (if outfile \<in> dom fs \<and> append_mode then the (fs outfile) else []) @ line)) \<and>
         line = abspath imagename @
           (if rois = [] then [tab]
            else concat (map (\<lambda>roi. tab # format_d (roi ! 0) @ '','' @ format_d (roi ! 1) @ '','' @
                                  format_d (roi ! 2) @ '','' @ format_d (roi ! 3)) rois)) @
           [newline] \<and>
         count_list line newline = 1 \<and> last line = newline)) \<and>
   (open_error outfile = Some e \<longrightarrow>
      save_rois abspath open_error rois outfile imagename append_mode fs = (Some e, fs)) \<and>
   (\<exists>ds. format_d n = (if n < 0 then CHR ''-'' # ds else ds) \<and> ds \<noteq> [] \<and>
      (\<forall>c \<in> set ds. c \<in> set ''0123456789'') \<and> decimal_value ds = nat \<bar>n\<bar> \<and>
      (hd ds = CHR ''0'' \<longrightarrow> ds = ''0'')) \<and>
   (poly \<noteq> [] \<longrightarrow>
      (\<exists>w h x y. convert_polygon_to_roi poly = Inr [w, h, x, y] \<and>
         (\<forall>p \<in> set poly. x \<le> fst p \<and> fst p \<le> x + w \<and> y \<le> snd p \<and> snd p \<le> y + h) \<and>
         (\<exists>p \<in> set poly. fst p = x) \<and> (\<exists>p \<in> set poly. fst p = x + w) \<and>
         (\<exists>p \<in> set poly. snd p = y) \<and> (\<exists>p \<in> set poly. snd p = y + h)))"
proof (intro conjI impI)
  assume a: "open_error outfile = None \<and> (\<forall>roi \<in> set rois. length roi = 4) \<and>
    newline \<notin> set (abspath imagename)"
  let ?body = "if rois = [] then [tab]
     else concat (map (\<lambda>roi. tab # format_d (roi ! 0) @ '','' @ format_d (roi ! 1) @ '','' @
                           format_d (roi ! 2) @ '','' @ format_d (roi ! 3)) rois)"
  let ?line = "abspath imagename @ ?body @ [newline]"
  from a have o: "open_error outfile = None" and l: "\<forall>roi \<in> set rois. length roi = 4"
    and p: "newline \<notin> set (abspath imagename)"
    by blast+
  have 1: "save_rois abspath open_error rois outfile imagename append_mode fs =
      (None, fs(outfile \<mapsto>
         (if outfile \<in> dom fs \<and> append_mode then the (fs outfile) else []) @ ?line))"
    using o l by (rule save_rois_line)
  have 2: "count_list ?line newline = 1"
    unfolding line_body [symmetric] using p by (rule one_newline)
  have 3: "last ?line = newline" by simp
  from 1 2 3 show "\<exists>line. save_rois abspath open_error rois outfile imagename append_mode fs =
           (None, fs(outfile \<mapsto>
              (if outfile \<in> dom fs \<and> append_mode then the (fs outfile) else []) @ line)) \<and>
         line = abspath imagename @ ?body @ [newline] \<and>
         count_list line newline = 1 \<and> last line = newline"
    by blast
next
  assume "open_error outfile = Some e"
  then show "save_rois abspath open_error rois outfile imagename append_mode fs = (Some e, fs)"
    by (simp add: save_rois_def)
next
  show "\<exists>ds. format_d n = (if n < 0 then CHR ''-'' # ds else ds) \<and> ds \<noteq> [] \<and>
      (\<forall>c \<in> set ds. c \<in> set ''0123456789'') \<and> decimal_value ds = nat \<bar>n\<bar> \<and>
      (hd ds = CHR ''0'' \<longrightarrow> ds = ''0'')"
    by (rule format_d_decimal)
next
  assume "poly \<noteq> []"
  then show "\<exists>w h x y. convert_polygon_to_roi poly = Inr [w, h, x, y] \<and>
         (\<forall>p \<in> set poly. x \<le> fst p \<and> fst p \<le> x + w \<and> y \<le> snd p \<and> snd p \<le> y + h) \<and>
         (\<exists>p \<in> set poly. fst p = x) \<and> (\<exists>p \<in> set poly. fst p = x + w) \<and>
         (\<exists>p \<in> set poly. snd p = y) \<and> (\<exists>p \<in> set poly. snd p = y + h)"
    by (rule bounding_box)
qed

theorem save_rois_one_line_witness:
  "newline \<notin> set ''v.avi'' \<and>
   save_rois id (\<lambda>p. None) two_rois ''out.txt'' ''v.avi'' True Map.empty =
     (None, Map.empty(''out.txt'' \<mapsto>
        ''v.avi'' @ [tab] @ ''3,4,1,2'' @ [tab] @ ''10,20,-5,0'' @ [newline])) \<and>
   save_rois id (\<lambda>p. Some OSError) two_rois ''out.txt'' ''v.avi'' True Map.empty =
     (Some OSError, Map.empty) \<and>
   convert_polygon_to_roi [(1, 2), (4, 2), (4, 6), (1, 6)] = Inr [3, 4, 1, 2]"
proof -
  have nl: "newline \<notin> set ''v.avi''" by (simp add: newline_def)
  have l: "\<forall>roi \<in> set two_rois. length roi = 4" by (simp add: two_rois_def)
  have ne: "[(1, 2), (4, 2), (4, 6), (1::int, 6::int)] \<noteq> []" by simp
  have q: "concat (map (\<lambda>roi. tab # format_d (roi ! 0) @ '','' @ format_d (roi ! 1) @ '','' @
                             format_d (roi ! 2) @ '','' @ format_d (roi ! 3)) two_rois) =
      [tab] @ ''3,4,1,2'' @ [tab] @ ''10,20,-5,0''"
    by (simp add: two_rois_def format_d_def str_nat.simps digit_char_def)
  have t: "two_rois \<noteq> []" by (simp add: two_rois_def)
  have c: "convert_polygon_to_roi [(1, 2), (4, 2), (4, 6), (1, 6)] = Inr [3, 4, 1, 2]"
    by (simp add: convert_polygon_to_roi_def)
  note w1 = save_rois_one_line [of "\<lambda>p. None" "''out.txt''" two_rois id "''v.avi''" True
      Map.empty OSError 0 "[(1, 2), (4, 2), (4, 6), (1, 6)]"]
  from w1 nl l have 1: "save_rois id (\<lambda>p. None) two_rois ''out.txt'' ''v.avi'' True Map.empty =
     (None, Map.empty(''out.txt'' \<mapsto>
        ''v.avi'' @ [tab] @ ''3,4,1,2'' @ [tab] @ ''10,20,-5,0'' @ [newline]))"
    using q t by simp
  from save_rois_one_line [of "\<lambda>p. Some OSError" "''out.txt''" two_rois id "''v.avi''" True
      Map.empty OSError 0 "[(1, 2), (4, 2), (4, 6), (1, 6)]"]
  have 2: "save_rois id (\<lambda>p. Some OSError) two_rois ''out.txt'' ''v.avi'' True Map.empty =
     (Some OSError, Map.empty)"
    by simp
  from nl 1 2 c show ?thesis by blast
qed

text \<open>
  The claim C8 as stated fails for a video name with a newline in it: the text written
  has two newlines, so it is two lines.
\<close>

theorem save_rois_two_lines_counterexample:
  "save_rois (\<lambda>p. ''/d/'' @ p) (\<lambda>p. None) [[3, 4, 1, 2]] ''out.txt''
      (''a'' @ [newline] @ ''b.avi'') True Map.empty =
     (None, Map.empty(''out.txt'' \<mapsto>
        ''/d/a'' @ [newline] @ ''b.avi'' @ [tab] @ ''3,4,1,2'' @ [newline])) \<and>
   count_list (''/d/a'' @ [newline] @ ''b.avi'' @ [tab] @ ''3,4,1,2'' @ [newline]) newline = 2"
  by (simp add: save_rois_def format_roi_def format_d_def str_nat.simps digit_char_def
      tab_def newline_def)

lemma load_names_fail:
  "load_globals [''list'', ''map'', ''get_roi_from_rect_pair'', ''pair_rects'', ''find_rects'']
     = Inl (NameError ''get_roi_from_rect_pair'')"
  by (simp add: load_global_def module_globals_def builtins_used_def)

text \<open>
  C10. \<open>bridgedetect.main\<close> never writes the output file: every run ends with an
  exception and the files unchanged, and a run that reaches line 105 (the frames were
  read and the mask was built) ends with \<open>NameError\<close> on the first of the three unbound
  names that the expression loads.
\<close>

theorem bd_main_never_writes:
  "(\<exists>e. bd_main abspath open_error args reads mask_result rois fs = (Some e, fs)) \<and>
   (list_all reads [0..<nat (args_frame args - 1)] \<and> reads (nat (args_frame args - 1)) \<and>
    mask_result = Inr ()
      \<longrightarrow> bd_main abspath open_error args reads mask_result rois fs =
            (Some (NameError ''get_roi_from_rect_pair''), fs))"
proof
  show "\<exists>e. bd_main abspath open_error args reads mask_result rois fs = (Some e, fs)"
    unfolding bd_main_def Let_def load_names_fail by (cases mask_result) auto
next
  show "list_all reads [0..<nat (args_frame args - 1)] \<and> reads (nat (args_frame args - 1)) \<and>
      mask_result = Inr ()
      \<longrightarrow> bd_main abspath open_error args reads mask_result rois fs =
            (Some (NameError ''get_roi_from_rect_pair''), fs)"
    unfolding bd_main_def Let_def load_names_fail by auto
qed

theorem bd_main_never_writes_witness:
  "bd_main id (\<lambda>p. None)
      \<lparr>args_video = ''v.avi'', args_outfile = ''out.txt'', args_override = True, args_frame = 3\<rparr>
      (\<lambda>i. True) (Inr ()) two_rois Map.empty =
     (Some (NameError ''get_roi_from_rect_pair''), Map.empty)"
proof -
  have "list_all (\<lambda>i. True)
      [0..<nat (args_frame \<lparr>args_video = ''v.avi'', args_outfile = ''out.txt'',
         args_override = True, args_frame = 3\<rparr> - 1)]"
    by (simp add: list_all_iff)
  with bd_main_never_writes [of id "\<lambda>p. None" "\<lparr>args_video = ''v.avi'', args_outfile = ''out.txt'',
      args_override = True, args_frame = 3\<rparr>" "\<lambda>i. True" "Inr ()" two_rois Map.empty]
  show ?thesis by simp
qed

end
